theory Spec2Isabelle
  imports Complex_Main "HOL-Library.Signed_Division" "HOL-Library.Log_Nat"
begin

section \<open>Common conventions\<close>

text \<open>
  The development embeds two parts of the EAMxx sources: the sparse horizontal remap
  engine (\<open>GSMap\<close>, \<open>GSSegment\<close>) and the MAM coupling layer (field names, scratch
  buffer, wet/dry conversion kernels, chemistry work arrays).

  C++ \<open>int\<close> values are HOL integers; \<open>Real\<close> values are HOL reals. A Kokkos view of
  rank one is a list, read with a bounds check. What the C++ leaves undefined (an index
  out of range, a null view, an overflowing \<open>int\<close>) and what it aborts on
  (\<open>EKAT_REQUIRE\<close>) are results of their own in the type \<open>error + 'a\<close>.
\<close>

datatype error =
    OutOfBounds          \<comment> \<open>a view or array indexed outside its extent\<close>
  | RequireFailed        \<comment> \<open>\<open>EKAT_REQUIRE\<close>, \<open>EKAT_REQUIRE_MSG\<close>, \<open>EKAT_KERNEL_ASSERT_MSG\<close>\<close>
  | NullView             \<comment> \<open>a null pointer, or a view whose \<open>data()\<close> is null, is dereferenced\<close>
  | IntOverflow          \<comment> \<open>a signed \<open>int\<close> expression leaves the range of \<open>int\<close>\<close>
  | Unresolved           \<comment> \<open>a member read before anything was stored in it\<close>

definition view_at :: "'a list \<Rightarrow> int \<Rightarrow> error + 'a" where
  "view_at v i = (if 0 \<le> i \<and> i < int (length v) then Inr (v ! nat i) else Inl OutOfBounds)"

definition bind_res :: "error + 'a \<Rightarrow> ('a \<Rightarrow> error + 'b) \<Rightarrow> error + 'b" where
  "bind_res r f = (case r of Inl e \<Rightarrow> Inl e | Inr x \<Rightarrow> f x)"

section \<open>GSMap::set\_remap\_segments\_from\_file: distributing the rows over the ranks\<close>

text \<open>
  Lines 155 to 177 of the remap utility. \<open>remap_size / num_ranks\<close> is the truncating
  division of C++, \<open>sdiv\<close>. Every rank runs the same code, so the \<open>all_gather\<close> of
  \<open>my_chunk\<close> yields the list of the values computed by ranks \<open>0 .. num_ranks - 1\<close>.
\<close>

definition my_chunk :: "int \<Rightarrow> int \<Rightarrow> int \<Rightarrow> int" where
  "my_chunk remap_size num_ranks my_rank =
     (let c = remap_size sdiv num_ranks;
          remainder = remap_size - c * num_ranks
      in if remainder \<noteq> 0 then c + (if my_rank < remainder then 1 else 0) else c)"

definition chunks_glob :: "int \<Rightarrow> nat \<Rightarrow> int list" where
  "chunks_glob remap_size num_ranks =
     map (\<lambda>r. my_chunk remap_size (int num_ranks) (int r)) [0..<num_ranks]"

definition my_start :: "int list \<Rightarrow> nat \<Rightarrow> int" where
  "my_start cg my_rank = fold (\<lambda>ii s. s + cg ! ii) [0..<my_rank] 0"

definition chunk_check :: "int list \<Rightarrow> nat \<Rightarrow> int" where
  "chunk_check cg num_ranks = fold (\<lambda>ii s. s + cg ! ii) [0..<num_ranks] 0"

text \<open>The partition step on one rank: its start and its chunk, or the fatal check.\<close>

definition partition_rows :: "int \<Rightarrow> nat \<Rightarrow> nat \<Rightarrow> error + (int \<times> int)" where
  "partition_rows remap_size num_ranks my_rank =
     (let chunk = my_chunk remap_size (int num_ranks) (int my_rank);
          cg = chunks_glob remap_size num_ranks;
          start = my_start cg my_rank
      in if chunk_check cg num_ranks = remap_size then Inr (start, chunk)
         else Inl RequireFailed)"

section \<open>GSMap::set\_remap\_segments\_from\_file: grouping the rows of one rank\<close>

text \<open>
  Lines 179 to 209. The view \<open>tgt_col_h\<close> has extent \<open>my_chunk\<close> and receives the
  entries \<open>my_start .. my_start + my_chunk - 1\<close> of the variable \<open>row\<close> of the file
  (the list \<open>var_dof\<close> handed to the I/O layer). The three vectors \<open>chunk_dof\<close>,
  \<open>chunk_start\<close>, \<open>chunk_len\<close> and the running minimum are the state of the loop.
\<close>

definition read_chunk :: "int list \<Rightarrow> int \<Rightarrow> int \<Rightarrow> int list" where
  "read_chunk row start chunk = map (\<lambda>j. row ! nat (start + int j)) [0..<nat chunk]"

record grouping =
  chunk_dof :: "int list"
  chunk_start :: "int list"
  chunk_len :: "int list"
  remap_min_dof :: int

definition group_step :: "int \<Rightarrow> int \<Rightarrow> int \<Rightarrow> grouping \<Rightarrow> grouping" where
  "group_step start ii t g =
     (let g' = g\<lparr>remap_min_dof := min t (remap_min_dof g)\<rparr>
      in if t = last (chunk_dof g')
         then g'\<lparr>chunk_len := (chunk_len g')[length (chunk_len g') - 1 := last (chunk_len g') + 1]\<rparr>
         else g'\<lparr>chunk_dof := chunk_dof g' @ [t],
                 chunk_start := chunk_start g' @ [start + ii],
                 chunk_len := chunk_len g' @ [1]\<rparr>)"

fun group_loop :: "int list \<Rightarrow> int \<Rightarrow> nat list \<Rightarrow> grouping \<Rightarrow> error + grouping" where
  "group_loop tgt start [] g = Inr g"
| "group_loop tgt start (ii # iis) g =
     bind_res (view_at tgt (int ii))
       (\<lambda>t. group_loop tgt start iis (group_step start (int ii) t g))"

definition group_chunk :: "int list \<Rightarrow> int \<Rightarrow> int \<Rightarrow> error + grouping" where
  "group_chunk tgt_col_h start chunk =
     bind_res (view_at tgt_col_h 0)
       (\<lambda>t0. group_loop tgt_col_h start [1..<nat chunk]
               \<lparr>chunk_dof = [t0], chunk_start = [start], chunk_len = [1],
                remap_min_dof = t0\<rparr>)"

text \<open>Steps 1 and 2 on rank \<open>my_rank\<close> of \<open>num_ranks\<close>, for a file whose \<open>row\<close> variable
  holds \<open>n_s = length row\<close> entries.\<close>

definition group_rows_on_rank :: "int list \<Rightarrow> nat \<Rightarrow> nat \<Rightarrow> error + grouping" where
  "group_rows_on_rank row num_ranks my_rank =
     bind_res (partition_rows (int (length row)) num_ranks my_rank)
       (\<lambda>(start, chunk). group_chunk (read_chunk row start chunk) start chunk)"

section \<open>GSSegment\<close>

text \<open>
  A segment holds its target DOF, its declared length and three views. \<open>m_dof_idx\<close>
  is written by \<open>set_dof_idx\<close> only; before that the member holds nothing the sources
  determine, which is \<open>None\<close> here. Views created by a constructor are zero-filled, as
  Kokkos allocates them.

  \<open>Real\<close> is a type chosen when the program is built, and the record takes it as a
  parameter. The functions that move weights from one segment to another, and the
  remap itself, are stated over the reals; \<open>GSSegment::check\<close>, whose tolerance is a
  matter of rounding, over IEEE doubles.
\<close>

record 'real GSSegment_T =
  m_dof :: int
  m_length :: int
  m_source_dofs :: "int list"
  m_source_idx :: "int list"
  m_weights :: "'real list"
  m_dof_idx :: "int option"

type_synonym GSSegment = "real GSSegment_T"

definition INT_MAX :: int where
  "INT_MAX = 2147483647"

definition int_add :: "int \<Rightarrow> int \<Rightarrow> error + int" where
  "int_add a b = (if - INT_MAX - 1 \<le> a + b \<and> a + b \<le> INT_MAX then Inr (a + b) else Inl IntOverflow)"

definition int_mul :: "int \<Rightarrow> int \<Rightarrow> error + int" where
  "int_mul a b = (if - INT_MAX - 1 \<le> a * b \<and> a * b \<le> INT_MAX then Inr (a * b) else Inl IntOverflow)"

definition view_set :: "'a list \<Rightarrow> int \<Rightarrow> 'a \<Rightarrow> error + 'a list" where
  "view_set v i x = (if 0 \<le> i \<and> i < int (length v) then Inr (v[nat i := x]) else Inl OutOfBounds)"

text \<open>\<open>GSSegment(dof_gid, length)\<close>\<close>

definition GSSegment_new :: "int \<Rightarrow> int \<Rightarrow> GSSegment" where
  "GSSegment_new dof_gid len =
     \<lparr>m_dof = dof_gid, m_length = len,
      m_source_dofs = replicate (nat len) 0,
      m_source_idx = replicate (nat len) 0,
      m_weights = replicate (nat len) 0,
      m_dof_idx = None\<rparr>"

text \<open>\<open>GSSegment(dof_gid, length, source_dofs, weights)\<close>: \<open>deep_copy\<close> refuses views of
  different extents.\<close>

definition GSSegment_from :: "int \<Rightarrow> int \<Rightarrow> int list \<Rightarrow> real list \<Rightarrow> error + GSSegment" where
  "GSSegment_from dof_gid len source_dofs weights =
     (if int (length source_dofs) = len \<and> int (length weights) = len
      then Inr ((GSSegment_new dof_gid len)\<lparr>m_source_dofs := source_dofs, m_weights := weights\<rparr>)
      else Inl RequireFailed)"

text \<open>What both constructors establish.\<close>

definition seg_wf :: "'real GSSegment_T \<Rightarrow> bool" where
  "seg_wf s \<longleftrightarrow> int (length (m_source_dofs s)) = m_length s
              \<and> int (length (m_source_idx s)) = m_length s
              \<and> int (length (m_weights s)) = m_length s"

text \<open>\<open>GSSegment::apply_segment\<close>: the reduction starts from zero and its result replaces
  \<open>remapped_value\<close>.\<close>

fun reduce_segment :: "real list \<Rightarrow> GSSegment \<Rightarrow> nat list \<Rightarrow> real \<Rightarrow> error + real" where
  "reduce_segment source_data s [] loc = Inr loc"
| "reduce_segment source_data s (ii # iis) loc =
     bind_res (view_at (m_source_idx s) (int ii)) (\<lambda>idx.
     bind_res (view_at source_data idx) (\<lambda>x.
     bind_res (view_at (m_weights s) (int ii)) (\<lambda>w.
       reduce_segment source_data s iis (loc + x * w))))"

definition apply_segment :: "real list \<Rightarrow> GSSegment \<Rightarrow> error + real" where
  "apply_segment source_data s = reduce_segment source_data s [0..<nat (m_length s)] 0"

section \<open>GSMap\<close>

text \<open>
  The communicator and the name of a map play no part in what follows and are left out.
\<close>

record GSMap =
  m_dofs_set :: bool
  m_dofs_gids :: "int list"
  m_num_dofs :: int
  m_map_segments :: "GSSegment list"
  m_num_segments :: int
  m_unique_set :: bool
  m_unique_dofs :: "int list"

text \<open>
  Modelled from the spec: the member initialisers of \<open>GSMap\<close> are in the header
  \<open>horizontal_remap_utility.hpp\<close>, which is not among the sources. The unconstructed
  state of section 4.5 has no DOFs, no segments and no unique-source-dof cache.
\<close>

definition GSMap_new :: GSMap where
  "GSMap_new = \<lparr>m_dofs_set = False, m_dofs_gids = [], m_num_dofs = 0, m_map_segments = [],
                m_num_segments = 0, m_unique_set = False, m_unique_dofs = []\<rparr>"

definition set_dof_gids :: "int list \<Rightarrow> int \<Rightarrow> GSMap \<Rightarrow> error + GSMap" where
  "set_dof_gids dofs_gids min_dof m =
     (if length dofs_gids > 0
      then Inr (m\<lparr>m_dofs_gids := map (\<lambda>ii. dofs_gids ! ii - min_dof) [0..<length dofs_gids],
                  m_num_dofs := int (length dofs_gids),
                  m_dofs_set := True\<rparr>)
      else Inl RequireFailed)"

subsection \<open>set\_unique\_source\_dofs\<close>

text \<open>First pass: every source DOF not yet in \<open>unique_dofs\<close> is pushed back. The
  local \<open>min_gid\<close> and \<open>max_gid\<close> are never read and are left out.\<close>

fun collect_seg :: "int list \<Rightarrow> nat list \<Rightarrow> int list \<Rightarrow> error + int list" where
  "collect_seg src_dofs [] unique_dofs = Inr unique_dofs"
| "collect_seg src_dofs (ii # iis) unique_dofs =
     bind_res (view_at src_dofs (int ii)) (\<lambda>x.
       collect_seg src_dofs iis (if x \<in> set unique_dofs then unique_dofs else unique_dofs @ [x]))"

fun collect_all :: "GSSegment list \<Rightarrow> nat list \<Rightarrow> int list \<Rightarrow> error + int list" where
  "collect_all segs [] unique_dofs = Inr unique_dofs"
| "collect_all segs (iseg # rest) unique_dofs =
     bind_res (view_at segs (int iseg)) (\<lambda>seg.
     bind_res (collect_seg (m_source_dofs seg) [0..<nat (m_length seg)] unique_dofs)
       (collect_all segs rest))"

text \<open>Second pass, the search of the target DOF among the local DOFs, left at the first
  match.\<close>

fun find_dof_idx :: "int list \<Rightarrow> int \<Rightarrow> nat list \<Rightarrow> error + int option" where
  "find_dof_idx dofs_gids seg_dof [] = Inr None"
| "find_dof_idx dofs_gids seg_dof (ii # iis) =
     bind_res (view_at dofs_gids (int ii)) (\<lambda>x.
       if seg_dof = x then Inr (Some (int ii)) else find_dof_idx dofs_gids seg_dof iis)"

text \<open>\<open>std::find(unique_dofs.begin(), unique_dofs.end(), dof) - unique_dofs.begin()\<close>\<close>

fun find_index :: "int list \<Rightarrow> int \<Rightarrow> int" where
  "find_index [] dof = 0"
| "find_index (y # ys) dof = (if y = dof then 0 else 1 + find_index ys dof)"

fun resolve_idx :: "int list \<Rightarrow> int list \<Rightarrow> nat list \<Rightarrow> int list \<Rightarrow> error + int list" where
  "resolve_idx unique_dofs src_dofs [] src_idx = Inr src_idx"
| "resolve_idx unique_dofs src_dofs (ii # iis) src_idx =
     bind_res (view_at src_dofs (int ii)) (\<lambda>dof.
     bind_res (view_set src_idx (int ii) (find_index unique_dofs dof))
       (resolve_idx unique_dofs src_dofs iis))"

definition resolve_segment :: "int list \<Rightarrow> int \<Rightarrow> int list \<Rightarrow> GSSegment \<Rightarrow> error + GSSegment" where
  "resolve_segment dofs_gids num_dofs unique_dofs seg =
     bind_res (find_dof_idx dofs_gids (m_dof seg) [0..<nat num_dofs]) (\<lambda>found.
       case found of
         None \<Rightarrow> Inl RequireFailed
       | Some ii \<Rightarrow>
           bind_res (resolve_idx unique_dofs (m_source_dofs seg) [0..<nat (m_length seg)]
                       (m_source_idx seg))
             (\<lambda>src_idx. Inr (seg\<lparr>m_dof_idx := Some ii, m_source_idx := src_idx\<rparr>)))"

fun resolve_all :: "int list \<Rightarrow> int \<Rightarrow> int list \<Rightarrow> nat list \<Rightarrow> GSSegment list
                    \<Rightarrow> error + GSSegment list" where
  "resolve_all dofs_gids num_dofs unique_dofs [] segs = Inr segs"
| "resolve_all dofs_gids num_dofs unique_dofs (iseg # rest) segs =
     bind_res (view_at segs (int iseg)) (\<lambda>seg.
     bind_res (resolve_segment dofs_gids num_dofs unique_dofs seg) (\<lambda>seg'.
     bind_res (view_set segs (int iseg) seg')
       (resolve_all dofs_gids num_dofs unique_dofs rest)))"

definition set_unique_source_dofs :: "GSMap \<Rightarrow> error + GSMap" where
  "set_unique_source_dofs m =
     bind_res (collect_all (m_map_segments m) [0..<nat (m_num_segments m)] []) (\<lambda>pushed.
       let unique_dofs = sort pushed;
           m1 = m\<lparr>m_unique_dofs := unique_dofs, m_unique_set := True\<rparr>
       in bind_res (resolve_all (m_dofs_gids m1) (m_num_dofs m1) unique_dofs
                      [0..<nat (m_num_segments m1)] (m_map_segments m1))
            (\<lambda>segs. Inr (m1\<lparr>m_map_segments := segs\<rparr>)))"

subsection \<open>add\_remap\_segment\<close>

text \<open>The search for a segment of the same target DOF, left at the first match;
  \<open>-999\<close> stands for no match.\<close>

fun find_match :: "GSSegment list \<Rightarrow> int \<Rightarrow> nat list \<Rightarrow> error + int" where
  "find_match segs seg_dof [] = Inr (- 999)"
| "find_match segs seg_dof (iseg # rest) =
     bind_res (view_at segs (int iseg)) (\<lambda>seg_ii.
       if m_dof seg_ii = seg_dof then Inr (int iseg) else find_match segs seg_dof rest)"

text \<open>One \<open>parallel_for\<close> of the merge, for one of the three views:
  \<open>dst(ii + off) = src(ii)\<close> for \<open>ii\<close> below the length.\<close>

fun copy_loop :: "'a list \<Rightarrow> int \<Rightarrow> nat list \<Rightarrow> 'a list \<Rightarrow> error + 'a list" where
  "copy_loop src off [] dst = Inr dst"
| "copy_loop src off (ii # iis) dst =
     bind_res (view_at src (int ii)) (\<lambda>x.
     bind_res (view_set dst (int ii + off) x) (copy_loop src off iis))"

definition merge_segments :: "GSSegment \<Rightarrow> GSSegment \<Rightarrow> error + GSSegment" where
  "merge_segments seg_match seg =
     bind_res (int_add (m_length seg) (m_length seg_match)) (\<lambda>new_length.
       let new_seg = GSSegment_new (m_dof seg) new_length;
           match_len = m_length seg_match;
           seg_len = m_length seg
       in
       bind_res (copy_loop (m_source_dofs seg_match) 0 [0..<nat match_len] (m_source_dofs new_seg)) (\<lambda>d1.
       bind_res (copy_loop (m_source_idx seg_match) 0 [0..<nat match_len] (m_source_idx new_seg)) (\<lambda>i1.
       bind_res (copy_loop (m_weights seg_match) 0 [0..<nat match_len] (m_weights new_seg)) (\<lambda>w1.
       bind_res (copy_loop (m_source_dofs seg) match_len [0..<nat seg_len] d1) (\<lambda>d2.
       bind_res (copy_loop (m_source_idx seg) match_len [0..<nat seg_len] i1) (\<lambda>i2.
       bind_res (copy_loop (m_weights seg) match_len [0..<nat seg_len] w1) (\<lambda>w2.
         Inr (new_seg\<lparr>m_source_dofs := d2, m_source_idx := i2, m_weights := w2\<rparr>))))))))"

definition add_remap_segment :: "GSSegment \<Rightarrow> GSMap \<Rightarrow> error + GSMap" where
  "add_remap_segment seg m =
     bind_res (find_match (m_map_segments m) (m_dof seg) [0..<nat (m_num_segments m)]) (\<lambda>match_loc.
     bind_res
       (if match_loc = - 999 then Inr (m_map_segments m @ [seg])
        else bind_res (view_at (m_map_segments m) match_loc) (\<lambda>seg_match.
             bind_res (merge_segments seg_match seg) (\<lambda>new_seg.
               view_set (m_map_segments m) match_loc new_seg)))
       (\<lambda>segs.
          let m' = m\<lparr>m_map_segments := segs, m_num_segments := int (length segs)\<rparr>
          in if m_unique_set m' then set_unique_source_dofs m' else Inr m'))"

subsection \<open>apply\_remap\<close>

text \<open>
  \<open>Kokkos::create_mirror_view\<close> is not among the sources and is a parameter: the view
  it returns for \<open>remapped_data\<close>. For a view in host-accessible memory it is the view
  itself; otherwise it is a separate host buffer of the same extent. The loop writes
  through the mirror, and the closing \<open>deep_copy\<close> makes \<open>remapped_data\<close> hold what the
  mirror holds.
\<close>

fun apply_loop :: "GSSegment list \<Rightarrow> real list \<Rightarrow> nat list \<Rightarrow> real list \<Rightarrow> error + real list" where
  "apply_loop segs source_data [] remapped_data_h = Inr remapped_data_h"
| "apply_loop segs source_data (iseg # rest) remapped_data_h =
     bind_res (view_at segs (int iseg)) (\<lambda>seg.
       case m_dof_idx seg of
         None \<Rightarrow> Inl Unresolved
       | Some seg_dof_idx \<Rightarrow>
           bind_res (apply_segment source_data seg) (\<lambda>v.
           bind_res (view_set remapped_data_h seg_dof_idx v)
             (apply_loop segs source_data rest)))"

definition apply_remap :: "(real list \<Rightarrow> real list) \<Rightarrow> GSMap \<Rightarrow> real list \<Rightarrow> real list
                            \<Rightarrow> error + real list" where
  "apply_remap create_mirror_view m source_data remapped_data =
     (if m_num_dofs m = 0 then Inr remapped_data
      else let remapped_data_h = create_mirror_view remapped_data
           in apply_loop (m_map_segments m) source_data [0..<nat (m_num_segments m)]
                remapped_data_h)"

subsection \<open>What the member functions maintain\<close>

text \<open>
  The segment count is the size of the segment vector, the DOF count is the extent of
  the DOF view, every segment is as a constructor leaves it, no two segments share a
  target DOF, and once the unique source DOFs are set every segment targets a local DOF.
\<close>

definition GSMap_inv :: "GSMap \<Rightarrow> bool" where
  "GSMap_inv m \<longleftrightarrow>
       m_num_segments m = int (length (m_map_segments m))
     \<and> m_num_dofs m = int (length (m_dofs_gids m))
     \<and> (\<forall>s \<in> set (m_map_segments m). seg_wf s)
     \<and> distinct (map m_dof (m_map_segments m))
     \<and> (m_unique_set m \<longrightarrow> (\<forall>s \<in> set (m_map_segments m). m_dof s \<in> set (m_dofs_gids m)))"

text \<open>
  What the claims say of a resolved segment, in their words: \<open>dof_idx\<close> is the position
  of the target DOF in the local DOF list, and every \<open>source_idx\<close> entry is a valid
  index into the unique list at which the segment's own source DOF stands.
\<close>

definition seg_resolved :: "int list \<Rightarrow> int list \<Rightarrow> GSSegment \<Rightarrow> bool" where
  "seg_resolved dofs_gids unique_dofs s \<longleftrightarrow>
       (\<exists>k<length dofs_gids. m_dof_idx s = Some (int k) \<and> dofs_gids ! k = m_dof s
            \<and> (\<forall>j<k. dofs_gids ! j \<noteq> m_dof s))
     \<and> length (m_source_idx s) = length (m_source_dofs s)
     \<and> (\<forall>i<length (m_source_dofs s).
            0 \<le> m_source_idx s ! i \<and> m_source_idx s ! i < int (length unique_dofs)
          \<and> unique_dofs ! nat (m_source_idx s ! i) = m_source_dofs s ! i)"

text \<open>Two segments carry the same contribution: target DOF, length, source DOFs and
  weights agree (the derived \<open>source_idx\<close> and \<open>dof_idx\<close> may differ).\<close>

definition same_contribution :: "GSSegment \<Rightarrow> GSSegment \<Rightarrow> bool" where
  "same_contribution s s' \<longleftrightarrow>
     m_dof s' = m_dof s \<and> m_length s' = m_length s
   \<and> m_source_dofs s' = m_source_dofs s \<and> m_weights s' = m_weights s"

subsection \<open>The merge as the specification words it\<close>

text \<open>
  A map seen as the list of what each segment contributes: target DOF, length, source
  DOFs and weights. Adding a contribution scans the list for one with the same target
  DOF; if there is one, it is replaced by the concatenation, old entries first; if
  there is none, the new contribution is appended.
\<close>

type_synonym contribution = "int \<times> int \<times> int list \<times> real list"

definition contribution_of :: "GSSegment \<Rightarrow> contribution" where
  "contribution_of s = (m_dof s, m_length s, m_source_dofs s, m_weights s)"

definition contributions :: "GSMap \<Rightarrow> contribution list" where
  "contributions m = map contribution_of (m_map_segments m)"

fun merge_contribution :: "contribution \<Rightarrow> contribution \<Rightarrow> contribution" where
  "merge_contribution (d, l, src, w) (d', l', src', w') = (d', l' + l, src @ src', w @ w')"

definition add_contribution :: "contribution \<Rightarrow> contribution list \<Rightarrow> contribution list" where
  "add_contribution c cs =
     (if fst c \<in> fst ` set cs
      then map (\<lambda>old. if fst old = fst c then merge_contribution old c else old) cs
      else cs @ [c])"

subsection \<open>The weighted sum of a segment\<close>

text \<open>What \<open>apply_segment\<close> is to compute, as the specification words it: the sum over
  the entries of the segment of the source value at \<open>source_idx\<close> times the weight.\<close>

definition weighted_sum :: "real list \<Rightarrow> GSSegment \<Rightarrow> real" where
  "weighted_sum source_data s =
     (\<Sum>i<length (m_weights s). source_data ! nat (m_source_idx s ! i) * m_weights s ! i)"

subsection \<open>Worked examples\<close>

text \<open>A rank owning the DOFs \<open>2\<close> and \<open>5\<close>, two segments for DOF \<open>5\<close> and one for
  DOF \<open>2\<close>.\<close>

definition example_seg_a :: GSSegment where
  "example_seg_a = \<lparr>m_dof = 5, m_length = 2, m_source_dofs = [10, 3], m_source_idx = [0, 0],
                     m_weights = [1 / 4, 1 / 4], m_dof_idx = None\<rparr>"

definition example_seg_b :: GSSegment where
  "example_seg_b = \<lparr>m_dof = 5, m_length = 1, m_source_dofs = [7], m_source_idx = [0],
                     m_weights = [1 / 2], m_dof_idx = None\<rparr>"

text \<open>A resolved map that holds the segment for DOF \<open>2\<close> only.\<close>

definition example_map :: GSMap where
  "example_map =
     \<lparr>m_dofs_set = True, m_dofs_gids = [2, 5], m_num_dofs = 2,
      m_map_segments =
        [\<lparr>m_dof = 2, m_length = 2, m_source_dofs = [3, 8], m_source_idx = [0, 1],
          m_weights = [1 / 2, 1 / 2], m_dof_idx = Some 0\<rparr>],
      m_num_segments = 1, m_unique_set = True, m_unique_dofs = [3, 8]\<rparr>"

text \<open>The same map after both segments for DOF \<open>5\<close> were added.\<close>

definition example_map_merged :: GSMap where
  "example_map_merged =
     \<lparr>m_dofs_set = True, m_dofs_gids = [2, 5], m_num_dofs = 2,
      m_map_segments =
        [\<lparr>m_dof = 2, m_length = 2, m_source_dofs = [3, 8], m_source_idx = [0, 2],
          m_weights = [1 / 2, 1 / 2], m_dof_idx = Some 0\<rparr>,
         \<lparr>m_dof = 5, m_length = 3, m_source_dofs = [10, 3, 7], m_source_idx = [3, 0, 1],
          m_weights = [1 / 4, 1 / 4, 1 / 2], m_dof_idx = Some 1\<rparr>],
      m_num_segments = 2, m_unique_set = True, m_unique_dofs = [3, 7, 8, 10]\<rparr>"

text \<open>The map \<open>example_map_merged\<close> before its unique source DOFs were set.\<close>

definition example_map_unresolved :: GSMap where
  "example_map_unresolved =
     \<lparr>m_dofs_set = True, m_dofs_gids = [2, 5], m_num_dofs = 2,
      m_map_segments =
        [\<lparr>m_dof = 2, m_length = 2, m_source_dofs = [3, 8], m_source_idx = [0, 0],
          m_weights = [1 / 2, 1 / 2], m_dof_idx = None\<rparr>,
         \<lparr>m_dof = 5, m_length = 3, m_source_dofs = [10, 3, 7], m_source_idx = [0, 0, 0],
          m_weights = [1 / 4, 1 / 4, 1 / 2], m_dof_idx = None\<rparr>],
      m_num_segments = 2, m_unique_set = False, m_unique_dofs = []\<rparr>"

text \<open>A map that already holds a one-entry segment for DOF \<open>5\<close>, and what the two
  additions make of it.\<close>

definition example_map_holding :: GSMap where
  "example_map_holding =
     \<lparr>m_dofs_set = True, m_dofs_gids = [2, 5], m_num_dofs = 2,
      m_map_segments = [example_seg_b],
      m_num_segments = 1, m_unique_set = False, m_unique_dofs = []\<rparr>"

definition example_map_holding_1 :: GSMap where
  "example_map_holding_1 =
     \<lparr>m_dofs_set = True, m_dofs_gids = [2, 5], m_num_dofs = 2,
      m_map_segments =
        [\<lparr>m_dof = 5, m_length = 3, m_source_dofs = [7, 10, 3], m_source_idx = [0, 0, 0],
          m_weights = [1 / 2, 1 / 4, 1 / 4], m_dof_idx = None\<rparr>],
      m_num_segments = 1, m_unique_set = False, m_unique_dofs = []\<rparr>"

definition example_map_holding_2 :: GSMap where
  "example_map_holding_2 =
     \<lparr>m_dofs_set = True, m_dofs_gids = [2, 5], m_num_dofs = 2,
      m_map_segments =
        [\<lparr>m_dof = 5, m_length = 4, m_source_dofs = [7, 10, 3, 7], m_source_idx = [0, 0, 0, 0],
          m_weights = [1 / 2, 1 / 4, 1 / 4, 1 / 2], m_dof_idx = None\<rparr>],
      m_num_segments = 1, m_unique_set = False, m_unique_dofs = []\<rparr>"

section \<open>IEEE double precision and GSSegment::check\<close>

text \<open>
  For \<open>check\<close> \<open>Real\<close> is \<open>double\<close>. A finite double is kept as an integer \<open>m\<close> and an
  exponent \<open>e\<close> and stands for \<open>m * 2 ^ e\<close>; the doubles are the values with
  \<open>\<bar>m\<bar> < 2 ^ 53\<close> and \<open>- 1074 \<le> e \<le> 971\<close>. The sign of a zero is not kept: no
  operation used here tells the two zeros apart.
\<close>

datatype double = Finite int int | PlusInf | MinusInf | NaN

fun valof :: "double \<Rightarrow> real" where
  "valof (Finite m e) = real_of_int m * 2 powi e"
| "valof PlusInf = 0"
| "valof MinusInf = 0"
| "valof NaN = 0"


fun double_ok :: "double \<Rightarrow> bool" where
  "double_ok (Finite m e) \<longleftrightarrow> \<bar>m\<bar> < 2 ^ 53 \<and> - 1074 \<le> e \<and> e \<le> 971"
| "double_ok PlusInf \<longleftrightarrow> True"
| "double_ok MinusInf \<longleftrightarrow> True"
| "double_ok NaN \<longleftrightarrow> True"

text \<open>
  Rounding to nearest, ties to even, of the exact value \<open>M * 2 ^ E\<close>. \<open>shift_of\<close> is the
  number of low bits that do not fit: what exceeds 53 bits of \<open>M\<close>, and what lies below
  \<open>2 ^ - 1074\<close>. \<open>round_shift\<close> divides a magnitude by \<open>2 ^ s\<close> and rounds the quotient to
  the nearest integer, a tie to the even one. A rounded magnitude of \<open>2 ^ 1024\<close> or more
  is an infinity. A rounded mantissa of \<open>2 ^ 53\<close> is kept as it is: it stands for the
  double \<open>2 ^ 52 * 2 ^ (e + 1)\<close>.
\<close>

definition shift_of :: "int \<Rightarrow> int \<Rightarrow> int" where
  "shift_of M E = max 0 (max (bitlen \<bar>M\<bar> - 53) (- 1074 - E))"

definition round_shift :: "int \<Rightarrow> nat \<Rightarrow> int" where
  "round_shift M s =
     (let q = M div 2 ^ s; r = M mod 2 ^ s
      in if 2 * r < 2 ^ s then q
         else if 2 * r > 2 ^ s then q + 1
         else if even q then q else q + 1)"

definition round_to_double :: "int \<Rightarrow> int \<Rightarrow> double" where
  "round_to_double M E =
     (let s = shift_of M E;
          m = round_shift \<bar>M\<bar> (nat s);
          e = E + s
      in if bitlen m + e > 1024 then (if M < 0 then MinusInf else PlusInf)
         else Finite (if M < 0 then - m else m) e)"

text \<open>Addition, negation, subtraction, absolute value, multiplication and \<open>>=\<close>.\<close>

fun fadd :: "double \<Rightarrow> double \<Rightarrow> double" where
  "fadd (Finite m1 e1) (Finite m2 e2) =
     (let e = min e1 e2
      in round_to_double (m1 * 2 ^ nat (e1 - e) + m2 * 2 ^ nat (e2 - e)) e)"
| "fadd NaN y = NaN"
| "fadd x NaN = NaN"
| "fadd PlusInf MinusInf = NaN"
| "fadd MinusInf PlusInf = NaN"
| "fadd PlusInf y = PlusInf"
| "fadd MinusInf y = MinusInf"
| "fadd x PlusInf = PlusInf"
| "fadd x MinusInf = MinusInf"

fun fneg :: "double \<Rightarrow> double" where
  "fneg (Finite m e) = Finite (- m) e"
| "fneg PlusInf = MinusInf"
| "fneg MinusInf = PlusInf"
| "fneg NaN = NaN"

definition fsub :: "double \<Rightarrow> double \<Rightarrow> double" where
  "fsub x y = fadd x (fneg y)"

fun fabs :: "double \<Rightarrow> double" where
  "fabs (Finite m e) = Finite \<bar>m\<bar> e"
| "fabs PlusInf = PlusInf"
| "fabs MinusInf = PlusInf"
| "fabs NaN = NaN"

fun fmul :: "double \<Rightarrow> double \<Rightarrow> double" where
  "fmul (Finite m1 e1) (Finite m2 e2) = round_to_double (m1 * m2) (e1 + e2)"
| "fmul NaN y = NaN"
| "fmul x NaN = NaN"
| "fmul (Finite m e) PlusInf = (if m = 0 then NaN else if m < 0 then MinusInf else PlusInf)"
| "fmul (Finite m e) MinusInf = (if m = 0 then NaN else if m < 0 then PlusInf else MinusInf)"
| "fmul PlusInf (Finite m e) = (if m = 0 then NaN else if m < 0 then MinusInf else PlusInf)"
| "fmul MinusInf (Finite m e) = (if m = 0 then NaN else if m < 0 then PlusInf else MinusInf)"
| "fmul PlusInf PlusInf = PlusInf"
| "fmul PlusInf MinusInf = MinusInf"
| "fmul MinusInf PlusInf = MinusInf"
| "fmul MinusInf MinusInf = PlusInf"

fun fge :: "double \<Rightarrow> double \<Rightarrow> bool" where
  "fge (Finite m1 e1) (Finite m2 e2) =
     (let e = min e1 e2 in m2 * 2 ^ nat (e2 - e) \<le> m1 * 2 ^ nat (e1 - e))"
| "fge NaN y = False"
| "fge x NaN = False"
| "fge PlusInf y = True"
| "fge x MinusInf = True"
| "fge MinusInf y = False"
| "fge x PlusInf = False"

text \<open>\<open>std::numeric_limits<double>::epsilon()\<close>\<close>

definition epsilon :: double where
  "epsilon = Finite 1 (- 52)"

text \<open>
  \<open>GSSegment::check\<close>. The three \<open>EKAT_REQUIRE_MSG\<close> come first. The reduction starts
  from \<open>0.0\<close> and adds the weights in the order of the index, as the serial execution
  space does; \<open>std::abs(wgt-1.0)>=tol\<close> is evaluated in doubles.
\<close>

definition GSSegment_check :: "double GSSegment_T \<Rightarrow> error + bool" where
  "GSSegment_check s =
     (if int (length (m_source_dofs s)) \<noteq> m_length s then Inl RequireFailed
      else if int (length (m_weights s)) \<noteq> m_length s then Inl RequireFailed
      else if int (length (m_source_idx s)) \<noteq> m_length s then Inl RequireFailed
      else let wgt = fold (\<lambda>ii lsum. fadd lsum (m_weights s ! ii)) [0..<nat (m_length s)]
                       (Finite 0 0);
               tol = fmul epsilon (Finite 100 0)
           in if fge (fabs (fsub wgt (Finite 1 0))) tol then Inr False else Inr True)"

text \<open>The sum of a list of weights as the reduction accumulates it: in doubles, from
  \<open>0.0\<close>, in the order of the list.\<close>

definition weight_sum :: "double list \<Rightarrow> double" where
  "weight_sum ws = foldl fadd (Finite 0 0) ws"




definition example_seg_824 :: "double GSSegment_T" where
  "example_seg_824 = \<lparr>m_dof = 5, m_length = 824, m_source_dofs = replicate 824 10,
     m_source_idx = replicate 824 0,
     m_weights = replicate 824 (Finite 2798353166521473 (- 61)), m_dof_idx = None\<rparr>"


section \<open>MAM coupling: the species and mode registry, field names\<close>

text \<open>
  \<open>mam4::AeroId\<close> and \<open>mam4::mode_aero_species\<close> belong to the mam4xx library and are
  not among the sources. The identifiers are a datatype in the order of the table
  \<open>species_names\<close>, which \<open>aero_species_name\<close> indexes with the identifier cast to
  \<open>int\<close>; \<open>NoAero\<close> is \<open>AeroId::None\<close>. The registry \<open>mode_aero_species\<close> is a
  parameter of every function that consults it.
\<close>

datatype AeroId = SOA | SO4 | POM | BC | NaCl | DST | MOM | NoAero

fun AeroId_int :: "AeroId \<Rightarrow> int" where
  "AeroId_int SOA = 0"
| "AeroId_int SO4 = 1"
| "AeroId_int POM = 2"
| "AeroId_int BC = 3"
| "AeroId_int NaCl = 4"
| "AeroId_int DST = 5"
| "AeroId_int MOM = 6"
| "AeroId_int NoAero = 7"

definition num_aero_modes :: nat where
  "num_aero_modes = 4"

definition num_aero_species :: nat where
  "num_aero_species = 7"

definition num_aero_gases :: nat where
  "num_aero_gases = 6"

definition num_aero_tracers :: nat where
  "num_aero_tracers = 7 + 4 + 7 + 3"

definition max_field_name_len :: nat where
  "max_field_name_len = 128"

definition aero_mode_name :: "int \<Rightarrow> error + string" where
  "aero_mode_name mode = view_at [''1'', ''2'', ''3'', ''4''] mode"

definition aero_species_name :: "int \<Rightarrow> error + string" where
  "aero_species_name species_id =
     view_at [''soa'', ''so4'', ''pom'', ''bc'', ''nacl'', ''dst'', ''mom''] species_id"

definition gas_species_name :: "int \<Rightarrow> error + string" where
  "gas_species_name gas_id =
     view_at [''O3'', ''H2O2'', ''H2SO4'', ''SO2'', ''DMS'', ''SOAG''] gas_id"

text \<open>
  A name buffer is a \<open>char\<close> array of \<open>max_field_name_len\<close> entries holding a
  NUL-terminated string; it is modelled by the string before the NUL, so an untouched,
  zero-filled buffer is the empty string and \<open>gpu_strlen\<close> is the length.
  \<open>concat_3_strings\<close> writes the three strings and the NUL one character after the
  other; the result must fit the buffer.
\<close>

definition gpu_strlen :: "string \<Rightarrow> nat" where
  "gpu_strlen s = length s"

definition concat_3_strings :: "string \<Rightarrow> string \<Rightarrow> string \<Rightarrow> error + string" where
  "concat_3_strings s1 s2 s3 =
     (let len1 = gpu_strlen s1; len2 = gpu_strlen s2; len3 = gpu_strlen s3
      in if len1 + len2 + len3 < max_field_name_len then Inr (s1 @ s2 @ s3)
         else Inl OutOfBounds)"

text \<open>
  The static tables \<open>int_aero_mmr_names_\<close> and \<open>cld_aero_mmr_names_\<close>: one buffer per
  mode and species, zero-filled when the program starts.
\<close>

type_synonym name_table = "string list list"

definition empty_names :: name_table where
  "empty_names = replicate num_aero_modes (replicate num_aero_species [])"

definition names_at :: "name_table \<Rightarrow> int \<Rightarrow> int \<Rightarrow> error + string" where
  "names_at t mode species = bind_res (view_at t mode) (\<lambda>row. view_at row species)"

definition names_set :: "name_table \<Rightarrow> int \<Rightarrow> int \<Rightarrow> string \<Rightarrow> error + name_table" where
  "names_set t mode species s =
     bind_res (view_at t mode) (\<lambda>row.
     bind_res (view_set row species s) (\<lambda>row'. view_set t mode row'))"

text \<open>
  The two synthesizers differ in the infix (\<open>_a\<close>, \<open>_c\<close>) and in the table they use.
  Each returns a pointer to the buffer of the pair: the string the caller reads, and the
  table as the call leaves it.
\<close>

definition aero_mmr_field_name ::
  "string \<Rightarrow> (int \<Rightarrow> int \<Rightarrow> AeroId) \<Rightarrow> name_table \<Rightarrow> int \<Rightarrow> int \<Rightarrow> error + (string \<times> name_table)" where
  "aero_mmr_field_name infix_ab mode_aero_species names mode species =
     bind_res (names_at names mode species) (\<lambda>buf.
       if buf = [] then
         (let aero_id = mode_aero_species mode species
          in if aero_id \<noteq> NoAero then
               bind_res (aero_species_name (AeroId_int aero_id)) (\<lambda>sn.
               bind_res (aero_mode_name mode) (\<lambda>mn.
               bind_res (concat_3_strings sn infix_ab mn) (\<lambda>s.
               bind_res (names_set names mode species s) (\<lambda>names'.
               bind_res (names_at names' mode species) (\<lambda>buf'. Inr (buf', names'))))))
             else Inr (buf, names))
       else Inr (buf, names))"

definition int_aero_mmr_field_name ::
  "(int \<Rightarrow> int \<Rightarrow> AeroId) \<Rightarrow> name_table \<Rightarrow> int \<Rightarrow> int \<Rightarrow> error + (string \<times> name_table)" where
  "int_aero_mmr_field_name = aero_mmr_field_name ''_a''"

definition cld_aero_mmr_field_name ::
  "(int \<Rightarrow> int \<Rightarrow> AeroId) \<Rightarrow> name_table \<Rightarrow> int \<Rightarrow> int \<Rightarrow> error + (string \<times> name_table)" where
  "cld_aero_mmr_field_name = aero_mmr_field_name ''_c''"

text \<open>
  The name the claims expect for a pair: the symbolic name of the species the registry
  gives, the infix and the one-based number of the mode; the empty string for a pair the
  registry marks as absent.
\<close>

definition species_symbol :: "AeroId \<Rightarrow> string" where
  "species_symbol a =
     (case a of SOA \<Rightarrow> ''soa'' | SO4 \<Rightarrow> ''so4'' | POM \<Rightarrow> ''pom'' | BC \<Rightarrow> ''bc''
      | NaCl \<Rightarrow> ''nacl'' | DST \<Rightarrow> ''dst'' | MOM \<Rightarrow> ''mom'' | NoAero \<Rightarrow> [])"

definition mode_number :: "nat \<Rightarrow> string" where
  "mode_number m = [''1'', ''2'', ''3'', ''4''] ! m"

definition expected_name :: "string \<Rightarrow> (int \<Rightarrow> int \<Rightarrow> AeroId) \<Rightarrow> nat \<Rightarrow> nat \<Rightarrow> string" where
  "expected_name infix_ab mode_aero_species m a =
     (if mode_aero_species (int m) (int a) = NoAero then []
      else species_symbol (mode_aero_species (int m) (int a)) @ infix_ab @ mode_number m)"

text \<open>
  A table as calls of one synthesizer can leave it: four rows of seven buffers, each
  empty or holding the expected name.
\<close>

definition names_ok :: "string \<Rightarrow> (int \<Rightarrow> int \<Rightarrow> AeroId) \<Rightarrow> name_table \<Rightarrow> bool" where
  "names_ok infix_ab mode_aero_species t \<longleftrightarrow>
     length t = num_aero_modes
   \<and> (\<forall>m<num_aero_modes. length (t ! m) = num_aero_species
        \<and> (\<forall>a<num_aero_species.
              t ! m ! a = [] \<or> t ! m ! a = expected_name infix_ab mode_aero_species m a))"

text \<open>A registry for the worked examples, with seven, four, seven and three species in
  the four modes, the counts \<open>num_aero_tracers\<close> adds up.\<close>

definition example_mode_aero_species :: "int \<Rightarrow> int \<Rightarrow> AeroId" where
  "example_mode_aero_species mode species =
     (if 0 \<le> mode \<and> mode < 4 \<and> 0 \<le> species \<and> species < 7
      then [[SOA, SO4, POM, BC, NaCl, DST, MOM],
            [SOA, SO4, NaCl, MOM, NoAero, NoAero, NoAero],
            [DST, NaCl, SO4, BC, POM, SOA, MOM],
            [POM, BC, MOM, NoAero, NoAero, NoAero, NoAero]] ! nat mode ! nat species
      else NoAero)"

section \<open>MAM coupling: the scratch buffer\<close>

text \<open>
  The members of \<open>Buffer\<close> that hold views are named by a datatype, and a \<open>Buffer\<close> maps
  each name to the view bound to it, if any. An unmanaged view is the offset of its first
  entry from the start of the arena, counted in \<open>Real\<close>s, and its two extents.
  \<open>sizeof(Real)\<close> is a parameter. \<open>size_t\<close> has 64 bits.
\<close>

datatype buffer_field =
    Z_mid | Dz | Qv_dry | Qc_dry | Nc_dry | Qi_dry | Ni_dry | W_updraft
  | Dry_int_aero_nmr nat | Dry_cld_aero_nmr nat
  | Dry_int_aero_mmr nat nat | Dry_cld_aero_mmr nat nat
  | Dry_gas_mmr nat | Scratch nat
  | Z_iface

record uview_2d =
  data :: nat
  extent_0 :: nat
  extent_1 :: nat

definition view_size :: "uview_2d \<Rightarrow> nat" where
  "view_size v = extent_0 v * extent_1 v"

record Buffer =
  views :: "buffer_field \<Rightarrow> uview_2d option"
  wsm_data :: "nat option"

definition num_2d_scratch :: nat where
  "num_2d_scratch = 10"

definition num_2d_mid :: nat where
  "num_2d_mid = 8 + 2 * (num_aero_modes + num_aero_tracers) + num_aero_gases + num_2d_scratch"

definition num_2d_iface :: nat where
  "num_2d_iface = 1"

definition size_t_of_int :: "int \<Rightarrow> nat" where
  "size_t_of_int n = nat (n mod 2 ^ 64)"

definition size_t_mul :: "nat \<Rightarrow> nat \<Rightarrow> nat" where
  "size_t_mul a b = (a * b) mod 2 ^ 64"

text \<open>\<open>buffer_size\<close>: the sum in the parentheses is computed in \<open>int\<close> and converted to
  \<open>size_t\<close> for the product with \<open>sizeof(Real)\<close>.\<close>

definition buffer_size :: "nat \<Rightarrow> int \<Rightarrow> int \<Rightarrow> error + nat" where
  "buffer_size sizeof_Real ncol nlev =
     bind_res (int_mul (int num_2d_mid) ncol) (\<lambda>a.
     bind_res (int_mul a nlev) (\<lambda>mid.
     bind_res (int_mul (int num_2d_iface) ncol) (\<lambda>b.
     bind_res (int_add nlev 1) (\<lambda>nlev_1.
     bind_res (int_mul b nlev_1) (\<lambda>iface.
     bind_res (int_add mid iface) (\<lambda>n.
       Inr (size_t_mul sizeof_Real (size_t_of_int n))))))))"

text \<open>\<open>init_buffer\<close>. The array \<open>view_2d_mid_ptrs\<close> has \<open>num_2d_mid\<close> entries; the
  initialiser gives the first of them and the others start as null pointers.\<close>

definition view_2d_mid_ptrs_given :: "buffer_field list" where
  "view_2d_mid_ptrs_given =
     [Z_mid, Dz, Qv_dry, Qc_dry, Nc_dry, Qi_dry, Ni_dry, W_updraft,
      Dry_int_aero_nmr 0, Dry_int_aero_nmr 1, Dry_int_aero_nmr 2, Dry_int_aero_nmr 3,
      Dry_cld_aero_nmr 0, Dry_cld_aero_nmr 1, Dry_cld_aero_nmr 2, Dry_cld_aero_nmr 3,
      Dry_int_aero_mmr 0 0, Dry_int_aero_mmr 0 1, Dry_int_aero_mmr 0 2, Dry_int_aero_mmr 0 3,
      Dry_int_aero_mmr 0 4, Dry_int_aero_mmr 0 5, Dry_int_aero_mmr 0 6,
      Dry_cld_aero_mmr 0 0, Dry_cld_aero_mmr 0 1, Dry_cld_aero_mmr 0 2, Dry_cld_aero_mmr 0 3,
      Dry_cld_aero_mmr 0 4, Dry_cld_aero_mmr 0 5, Dry_cld_aero_mmr 0 6,
      Dry_int_aero_mmr 1 0, Dry_int_aero_mmr 1 1, Dry_int_aero_mmr 1 2, Dry_int_aero_mmr 1 3,
      Dry_cld_aero_mmr 1 0, Dry_cld_aero_mmr 1 1, Dry_cld_aero_mmr 1 2, Dry_cld_aero_mmr 1 3,
      Dry_int_aero_mmr 2 0, Dry_int_aero_mmr 2 1, Dry_int_aero_mmr 2 2, Dry_int_aero_mmr 2 3,
      Dry_int_aero_mmr 2 4, Dry_int_aero_mmr 2 5, Dry_int_aero_mmr 2 6,
      Dry_cld_aero_mmr 2 0, Dry_cld_aero_mmr 2 1, Dry_cld_aero_mmr 2 2, Dry_cld_aero_mmr 2 3,
      Dry_cld_aero_mmr 2 4, Dry_cld_aero_mmr 2 5, Dry_cld_aero_mmr 2 6,
      Dry_int_aero_mmr 3 0, Dry_int_aero_mmr 3 1, Dry_int_aero_mmr 3 2,
      Dry_cld_aero_mmr 3 0, Dry_cld_aero_mmr 3 1, Dry_cld_aero_mmr 3 2,
      Dry_gas_mmr 0, Dry_gas_mmr 1, Dry_gas_mmr 2, Dry_gas_mmr 3, Dry_gas_mmr 4, Dry_gas_mmr 5]"

definition view_2d_mid_ptrs_init :: "buffer_field option list" where
  "view_2d_mid_ptrs_init =
     map Some view_2d_mid_ptrs_given
       @ replicate (num_2d_mid - length view_2d_mid_ptrs_given) None"

fun set_scratch_ptrs :: "nat list \<Rightarrow> buffer_field option list \<Rightarrow> error + buffer_field option list" where
  "set_scratch_ptrs [] ptrs = Inr ptrs"
| "set_scratch_ptrs (i # rest) ptrs =
     bind_res (view_set ptrs (int num_2d_mid + int i - int num_2d_scratch) (Some (Scratch i)))
       (set_scratch_ptrs rest)"

text \<open>The loops that bind the views: \<open>*ptrs[i] = view_2d(mem, e0, e1)\<close>, then \<open>mem\<close>
  moves on by the size of that view.\<close>

fun bind_views :: "buffer_field option list \<Rightarrow> nat \<Rightarrow> nat \<Rightarrow> nat list \<Rightarrow> Buffer \<times> nat
                   \<Rightarrow> error + Buffer \<times> nat" where
  "bind_views ptrs e0 e1 [] st = Inr st"
| "bind_views ptrs e0 e1 (i # rest) (buffer, mem) =
     bind_res (view_at ptrs (int i)) (\<lambda>p.
       case p of
         None \<Rightarrow> Inl NullView
       | Some f \<Rightarrow>
           (let v = \<lparr>data = mem, extent_0 = e0, extent_1 = e1\<rparr>
            in bind_views ptrs e0 e1 rest
                 (buffer\<lparr>views := (views buffer)(f \<mapsto> v)\<rparr>, mem + view_size v)))"

definition init_buffer :: "nat \<Rightarrow> int \<Rightarrow> int \<Rightarrow> Buffer \<Rightarrow> error + Buffer \<times> nat" where
  "init_buffer sizeof_Real ncol nlev buffer =
     bind_res (set_scratch_ptrs [0..<num_2d_scratch] view_2d_mid_ptrs_init) (\<lambda>view_2d_mid_ptrs.
     bind_res (bind_views view_2d_mid_ptrs (nat ncol) (nat nlev) [0..<num_2d_mid] (buffer, 0))
       (\<lambda>(buffer1, mem1).
     bind_res (int_add nlev 1) (\<lambda>nlev_1.
     bind_res (bind_views [Some Z_iface] (nat ncol) (nat nlev_1) [0..<num_2d_iface] (buffer1, mem1))
       (\<lambda>(buffer2, mem2).
          Inr (buffer2\<lparr>wsm_data := Some mem2\<rparr>, size_t_mul mem2 sizeof_Real)))))"

text \<open>The fields \<open>init_buffer\<close> binds, in the order of their places in the arena, and what
  a view occupies there.\<close>

definition bound_fields :: "buffer_field list" where
  "bound_fields = view_2d_mid_ptrs_given @ map Scratch [0..<num_2d_scratch] @ [Z_iface]"

definition region :: "uview_2d \<Rightarrow> nat set" where
  "region v = {data v ..< data v + view_size v}"

definition unbound_buffer :: Buffer where
  "unbound_buffer = \<lparr>views = (\<lambda>f. None), wsm_data = None\<rparr>"

text \<open>The view a field is bound to once \<open>init_buffer\<close> has returned.\<close>

definition view_after_init :: "nat \<Rightarrow> int \<Rightarrow> int \<Rightarrow> Buffer \<Rightarrow> buffer_field \<Rightarrow> error + uview_2d option" where
  "view_after_init sizeof_Real ncol nlev buffer f =
     bind_res (init_buffer sizeof_Real ncol nlev buffer) (\<lambda>(buffer', bytes). Inr (views buffer' f))"

section \<open>MAM coupling: wet and dry mixing ratios\<close>

text \<open>
  A two-dimensional view is read at a column and a level; a view that was never
  allocated has no data. Extents are not modelled: every column and level a kernel
  touches is taken to lie inside the view.
\<close>

type_synonym view_2d = "nat \<Rightarrow> nat \<Rightarrow> real"

definition read_2d :: "view_2d option \<Rightarrow> nat \<Rightarrow> nat \<Rightarrow> error + real" where
  "read_2d v i k = (case v of None \<Rightarrow> Inl NullView | Some d \<Rightarrow> Inr (d i k))"

definition write_2d :: "view_2d option \<Rightarrow> nat \<Rightarrow> nat \<Rightarrow> real \<Rightarrow> error + view_2d option" where
  "write_2d v i k x =
     (case v of None \<Rightarrow> Inl NullView | Some d \<Rightarrow> Inr (Some (d(i := (d i)(k := x)))))"

record WetAtmosphere =
  wet_qv :: "view_2d option"
  wet_qc :: "view_2d option"
  wet_nc :: "view_2d option"
  wet_qi :: "view_2d option"
  wet_ni :: "view_2d option"
  wet_omega :: "view_2d option"

text \<open>Of \<open>DryAtmosphere\<close> the five mixing ratios are kept; no kernel below touches the
  other members.\<close>

record DryAtmosphere =
  dry_qv :: "view_2d option"
  dry_qc :: "view_2d option"
  dry_nc :: "view_2d option"
  dry_qi :: "view_2d option"
  dry_ni :: "view_2d option"

text \<open>
  The views of an \<open>AerosolState\<close> are named by a datatype, and the state maps each name
  to its view: \<open>int_aero_nmr[m]\<close>, \<open>cld_aero_nmr[m]\<close>, \<open>int_aero_mmr[m][a]\<close>,
  \<open>cld_aero_mmr[m][a]\<close> and \<open>gas_mmr[g]\<close>.
\<close>

datatype aero_slot =
    Int_aero_nmr nat | Cld_aero_nmr nat
  | Int_aero_mmr nat nat | Cld_aero_mmr nat nat
  | Gas_mmr nat

type_synonym AerosolState = "aero_slot \<Rightarrow> view_2d option"

text \<open>
  Modelled from the spec: \<open>PF::calculate_drymmr_from_wetmmr\<close> and
  \<open>PF::calculate_wetmmr_from_drymmr\<close> are in \<open>scream_common_physics_functions.hpp\<close>,
  which is not among the sources. The specification gives the identity
  \<open>dry = wet / (1 - qv_wet)\<close> for the first and calls the second its inverse direction,
  with the dry water vapour value as factor: \<open>wet = dry / (1 + qv_dry)\<close>.
\<close>

definition calculate_drymmr_from_wetmmr :: "real \<Rightarrow> real \<Rightarrow> real" where
  "calculate_drymmr_from_wetmmr wetmmr qv_wet = wetmmr / (1 - qv_wet)"

definition calculate_wetmmr_from_drymmr :: "real \<Rightarrow> real \<Rightarrow> real" where
  "calculate_wetmmr_from_drymmr drymmr qv_dry = drymmr / (1 + qv_dry)"

subsection \<open>compute\_dry\_mixing\_ratios for the atmosphere\<close>

text \<open>The body of the \<open>parallel_for\<close> at level \<open>k\<close> of column \<open>i\<close>, and the loop over the
  levels. \<open>nlev\<close> is \<open>mam4::nlev\<close>, a constant of mam4xx, and a parameter here.\<close>

definition dry_atm_level :: "WetAtmosphere \<Rightarrow> nat \<Rightarrow> nat \<Rightarrow> DryAtmosphere \<Rightarrow> error + DryAtmosphere" where
  "dry_atm_level wet_atm i k dry_atm =
     bind_res (read_2d (wet_qv wet_atm) i k) (\<lambda>qv_ik.
     bind_res (read_2d (wet_qv wet_atm) i k) (\<lambda>x.
     bind_res (write_2d (dry_qv dry_atm) i k (calculate_drymmr_from_wetmmr x qv_ik)) (\<lambda>v_qv.
     bind_res (read_2d (wet_qc wet_atm) i k) (\<lambda>x.
     bind_res (write_2d (dry_qc dry_atm) i k (calculate_drymmr_from_wetmmr x qv_ik)) (\<lambda>v_qc.
     bind_res (read_2d (wet_nc wet_atm) i k) (\<lambda>x.
     bind_res (write_2d (dry_nc dry_atm) i k (calculate_drymmr_from_wetmmr x qv_ik)) (\<lambda>v_nc.
     bind_res (read_2d (wet_qi wet_atm) i k) (\<lambda>x.
     bind_res (write_2d (dry_qi dry_atm) i k (calculate_drymmr_from_wetmmr x qv_ik)) (\<lambda>v_qi.
     bind_res (read_2d (wet_ni wet_atm) i k) (\<lambda>x.
     bind_res (write_2d (dry_ni dry_atm) i k (calculate_drymmr_from_wetmmr x qv_ik)) (\<lambda>v_ni.
       Inr (dry_atm\<lparr>dry_qv := v_qv, dry_qc := v_qc, dry_nc := v_nc,
                    dry_qi := v_qi, dry_ni := v_ni\<rparr>))))))))))))"

fun dry_atm_levels :: "WetAtmosphere \<Rightarrow> nat \<Rightarrow> nat list \<Rightarrow> DryAtmosphere \<Rightarrow> error + DryAtmosphere" where
  "dry_atm_levels wet_atm i [] dry_atm = Inr dry_atm"
| "dry_atm_levels wet_atm i (k # ks) dry_atm =
     bind_res (dry_atm_level wet_atm i k dry_atm) (dry_atm_levels wet_atm i ks)"

definition compute_dry_mixing_ratios_atm ::
  "nat \<Rightarrow> int \<Rightarrow> WetAtmosphere \<Rightarrow> DryAtmosphere \<Rightarrow> int \<Rightarrow> error + DryAtmosphere" where
  "compute_dry_mixing_ratios_atm nlev league_rank wet_atm dry_atm column_index =
     (if column_index \<noteq> league_rank then Inl RequireFailed
      else dry_atm_levels wet_atm (nat column_index) [0..<nlev] dry_atm)"

subsection \<open>The two aerosol kernels\<close>

text \<open>
  \<open>compute_dry_mixing_ratios\<close> for aerosols and \<open>compute_wet_mixing_ratios\<close> are the
  same loops with another conversion, another source of the water vapour value and the
  roles of the two states exchanged. A view written without a test of \<open>data()\<close> is
  converted by \<open>convert_slot\<close>; a view written under the test of the destination's
  \<open>data()\<close> by \<open>convert_slot_if_allocated\<close>.
\<close>

definition convert_slot ::
  "(real \<Rightarrow> real \<Rightarrow> real) \<Rightarrow> AerosolState \<Rightarrow> aero_slot \<Rightarrow> nat \<Rightarrow> nat \<Rightarrow> real \<Rightarrow> AerosolState
     \<Rightarrow> error + AerosolState" where
  "convert_slot f src s i k qv_ik dst =
     bind_res (read_2d (src s) i k) (\<lambda>x.
     bind_res (write_2d (dst s) i k (f x qv_ik)) (\<lambda>v. Inr (dst(s := v))))"

definition convert_slot_if_allocated ::
  "(real \<Rightarrow> real \<Rightarrow> real) \<Rightarrow> AerosolState \<Rightarrow> aero_slot \<Rightarrow> nat \<Rightarrow> nat \<Rightarrow> real \<Rightarrow> AerosolState
     \<Rightarrow> error + AerosolState" where
  "convert_slot_if_allocated f src s i k qv_ik dst =
     (if dst s \<noteq> None then convert_slot f src s i k qv_ik dst else Inr dst)"

fun species_loop ::
  "(real \<Rightarrow> real \<Rightarrow> real) \<Rightarrow> AerosolState \<Rightarrow> nat \<Rightarrow> nat \<Rightarrow> real \<Rightarrow> nat \<Rightarrow> nat list \<Rightarrow> AerosolState
     \<Rightarrow> error + AerosolState" where
  "species_loop f src i k qv_ik m [] dst = Inr dst"
| "species_loop f src i k qv_ik m (a # rest) dst =
     bind_res (convert_slot_if_allocated f src (Int_aero_mmr m a) i k qv_ik dst) (\<lambda>dst1.
     bind_res (convert_slot_if_allocated f src (Cld_aero_mmr m a) i k qv_ik dst1)
       (species_loop f src i k qv_ik m rest))"

fun modes_loop ::
  "(real \<Rightarrow> real \<Rightarrow> real) \<Rightarrow> AerosolState \<Rightarrow> nat \<Rightarrow> nat \<Rightarrow> real \<Rightarrow> nat list \<Rightarrow> AerosolState
     \<Rightarrow> error + AerosolState" where
  "modes_loop f src i k qv_ik [] dst = Inr dst"
| "modes_loop f src i k qv_ik (m # rest) dst =
     bind_res (convert_slot f src (Int_aero_nmr m) i k qv_ik dst) (\<lambda>dst1.
     bind_res (convert_slot_if_allocated f src (Cld_aero_nmr m) i k qv_ik dst1) (\<lambda>dst2.
     bind_res (species_loop f src i k qv_ik m [0..<num_aero_species] dst2)
       (modes_loop f src i k qv_ik rest)))"

fun gases_loop ::
  "(real \<Rightarrow> real \<Rightarrow> real) \<Rightarrow> AerosolState \<Rightarrow> nat \<Rightarrow> nat \<Rightarrow> real \<Rightarrow> nat list \<Rightarrow> AerosolState
     \<Rightarrow> error + AerosolState" where
  "gases_loop f src i k qv_ik [] dst = Inr dst"
| "gases_loop f src i k qv_ik (g # rest) dst =
     bind_res (convert_slot f src (Gas_mmr g) i k qv_ik dst) (gases_loop f src i k qv_ik rest)"

definition aero_level ::
  "(real \<Rightarrow> real \<Rightarrow> real) \<Rightarrow> view_2d option \<Rightarrow> AerosolState \<Rightarrow> nat \<Rightarrow> nat \<Rightarrow> AerosolState
     \<Rightarrow> error + AerosolState" where
  "aero_level f qv src i k dst =
     bind_res (read_2d qv i k) (\<lambda>qv_ik.
     bind_res (modes_loop f src i k qv_ik [0..<num_aero_modes] dst)
       (gases_loop f src i k qv_ik [0..<num_aero_gases]))"

fun aero_levels ::
  "(real \<Rightarrow> real \<Rightarrow> real) \<Rightarrow> view_2d option \<Rightarrow> AerosolState \<Rightarrow> nat \<Rightarrow> nat list \<Rightarrow> AerosolState
     \<Rightarrow> error + AerosolState" where
  "aero_levels f qv src i [] dst = Inr dst"
| "aero_levels f qv src i (k # ks) dst =
     bind_res (aero_level f qv src i k dst) (aero_levels f qv src i ks)"

definition compute_dry_mixing_ratios ::
  "nat \<Rightarrow> int \<Rightarrow> WetAtmosphere \<Rightarrow> AerosolState \<Rightarrow> AerosolState \<Rightarrow> int \<Rightarrow> error + AerosolState" where
  "compute_dry_mixing_ratios nlev league_rank wet_atm wet_aero dry_aero column_index =
     (if column_index \<noteq> league_rank then Inl RequireFailed
      else aero_levels calculate_drymmr_from_wetmmr (wet_qv wet_atm) wet_aero
             (nat column_index) [0..<nlev] dry_aero)"

definition compute_wet_mixing_ratios ::
  "nat \<Rightarrow> int \<Rightarrow> DryAtmosphere \<Rightarrow> AerosolState \<Rightarrow> AerosolState \<Rightarrow> int \<Rightarrow> error + AerosolState" where
  "compute_wet_mixing_ratios nlev league_rank dry_atm dry_aero wet_aero column_index =
     (if column_index \<noteq> league_rank then Inl RequireFailed
      else aero_levels calculate_wetmmr_from_drymmr (dry_qv dry_atm) dry_aero
             (nat column_index) [0..<nlev] wet_aero)"

text \<open>
  The views a kernel visits, and the two states of one kernel being populated alike:
  the modal interstitial number and the gas views are allocated in both, and each of
  the other views is allocated in both or in neither.
\<close>

definition visited_slots :: "aero_slot set" where
  "visited_slots =
     (\<Union>m<num_aero_modes. {Int_aero_nmr m, Cld_aero_nmr m}
          \<union> (\<Union>a<num_aero_species. {Int_aero_mmr m a, Cld_aero_mmr m a}))
     \<union> (\<Union>g<num_aero_gases. {Gas_mmr g})"

definition populated_alike :: "AerosolState \<Rightarrow> AerosolState \<Rightarrow> bool" where
  "populated_alike s t \<longleftrightarrow>
     (\<forall>m<num_aero_modes. s (Int_aero_nmr m) \<noteq> None \<and> t (Int_aero_nmr m) \<noteq> None)
   \<and> (\<forall>g<num_aero_gases. s (Gas_mmr g) \<noteq> None \<and> t (Gas_mmr g) \<noteq> None)
   \<and> (\<forall>x\<in>visited_slots. s x = None \<longleftrightarrow> t x = None)"

text \<open>
  What a kernel is to leave behind, stated at once for a set of views and a set of
  levels of column \<open>i\<close>: every view of the set that is allocated in both states holds
  the conversion of the source's value at these levels, and is as before elsewhere.
\<close>

definition converted_view ::
  "(real \<Rightarrow> real \<Rightarrow> real) \<Rightarrow> view_2d \<Rightarrow> view_2d \<Rightarrow> nat \<Rightarrow> nat set \<Rightarrow> view_2d \<Rightarrow> view_2d" where
  "converted_view f qv w i K d =
     (\<lambda>i' k'. if i' = i \<and> k' \<in> K then f (w i k') (qv i k') else d i' k')"

definition converted_on ::
  "aero_slot set \<Rightarrow> (real \<Rightarrow> real \<Rightarrow> real) \<Rightarrow> view_2d \<Rightarrow> AerosolState \<Rightarrow> nat \<Rightarrow> nat set
     \<Rightarrow> AerosolState \<Rightarrow> AerosolState" where
  "converted_on S f qv src i K dst =
     (\<lambda>s. if s \<in> S
          then (case (src s, dst s) of
                  (Some w, Some d) \<Rightarrow> Some (converted_view f qv w i K d)
                | _ \<Rightarrow> dst s)
          else dst s)"

text \<open>The views one pass of the loop over the species of mode \<open>m\<close> and the two
  modal number statements before it visit.\<close>

definition mode_slots :: "nat \<Rightarrow> aero_slot set" where
  "mode_slots m = {Int_aero_nmr m, Cld_aero_nmr m}
                    \<union> (\<Union>a<num_aero_species. {Int_aero_mmr m a, Cld_aero_mmr m a})"

text \<open>
  An example: an atmosphere of two levels with half of the air being water vapour, and
  aerosol states that hold no cloudborne mass mixing ratio and two species per mode.
\<close>

definition example_wet_atm :: WetAtmosphere where
  "example_wet_atm = \<lparr>wet_qv = Some (\<lambda>i k. 1 / 2), wet_qc = Some (\<lambda>i k. 1 / 4),
     wet_nc = Some (\<lambda>i k. 10), wet_qi = Some (\<lambda>i k. 1 / 8), wet_ni = Some (\<lambda>i k. 20),
     wet_omega = None\<rparr>"

definition example_dry_atm :: DryAtmosphere where
  "example_dry_atm = \<lparr>dry_qv = Some (\<lambda>i k. 0), dry_qc = Some (\<lambda>i k. 0),
     dry_nc = Some (\<lambda>i k. 0), dry_qi = Some (\<lambda>i k. 0), dry_ni = Some (\<lambda>i k. 0)\<rparr>"

fun example_wet_aero :: AerosolState where
  "example_wet_aero (Cld_aero_mmr m a) = None"
| "example_wet_aero (Int_aero_mmr m a) = (if a < 2 then Some (\<lambda>i k. 3) else None)"
| "example_wet_aero s = Some (\<lambda>i k. 5)"

fun example_dry_aero :: AerosolState where
  "example_dry_aero (Cld_aero_mmr m a) = None"
| "example_dry_aero (Int_aero_mmr m a) = (if a < 2 then Some (\<lambda>i k. 0) else None)"
| "example_dry_aero s = Some (\<lambda>i k. 0)"

section \<open>MAM coupling: the chemistry work arrays\<close>

text \<open>
  \<open>mam4::ModeIndex\<close> and \<open>mam4::GasId\<close> belong to the mam4xx library, like \<open>AeroId\<close>.
  The modes are a datatype in the order in which the constituent table lists them, the
  gases in the order of the table \<open>gas_species_name\<close> indexes with the identifier cast
  to \<open>int\<close>; \<open>NoMode\<close> is \<open>ModeIndex::None\<close> and \<open>NoGas\<close> is \<open>GasId::None\<close>.
\<close>

datatype ModeIndex = Accum | Aitken | Coarse | PC | NoMode

datatype GasId = O3 | H2O2 | H2SO4 | SO2 | DMS | SOAG | NoGas

fun ModeIndex_int :: "ModeIndex \<Rightarrow> int" where
  "ModeIndex_int Accum = 0"
| "ModeIndex_int Aitken = 1"
| "ModeIndex_int Coarse = 2"
| "ModeIndex_int PC = 3"
| "ModeIndex_int NoMode = 4"

fun GasId_int :: "GasId \<Rightarrow> int" where
  "GasId_int O3 = 0"
| "GasId_int H2O2 = 1"
| "GasId_int H2SO4 = 2"
| "GasId_int SO2 = 3"
| "GasId_int DMS = 4"
| "GasId_int SOAG = 5"
| "GasId_int NoGas = 6"

text \<open>
  \<open>gas_pcnst()\<close> returns \<open>mam4::gas_chemistry::gas_pcnst\<close>; the three tables of
  \<open>DECLARE_PROG_TRANSFER_CONSTANTS\<close> are given that many entries, thirty-one.
\<close>

definition gas_pcnst :: nat where
  "gas_pcnst = 31"

definition mode_for_cnst :: "ModeIndex list" where
  "mode_for_cnst =
     [NoMode, NoMode, NoMode, NoMode, NoMode, NoMode,
      Accum, Accum, Accum, Accum, Accum, Accum, Accum, Accum,
      Aitken, Aitken, Aitken, Aitken, Aitken,
      Coarse, Coarse, Coarse, Coarse, Coarse, Coarse, Coarse, Coarse,
      PC, PC, PC, PC]"

definition aero_for_cnst :: "AeroId list" where
  "aero_for_cnst =
     [NoAero, NoAero, NoAero, NoAero, NoAero, NoAero,
      SO4, POM, SOA, BC, DST, NaCl, MOM, NoAero,
      SO4, SOA, NaCl, MOM, NoAero,
      DST, NaCl, SO4, BC, POM, SOA, MOM, NoAero,
      POM, BC, MOM, NoAero]"

definition gas_for_cnst :: "GasId list" where
  "gas_for_cnst =
     [O3, H2O2, H2SO4, SO2, DMS, SOAG,
      NoGas, NoGas, NoGas, NoGas, NoGas, NoGas, NoGas, NoGas,
      NoGas, NoGas, NoGas, NoGas, NoGas,
      NoGas, NoGas, NoGas, NoGas, NoGas, NoGas, NoGas, NoGas,
      NoGas, NoGas, NoGas, NoGas]"

text \<open>
  Of \<open>mam4::Prognostics\<close> the five families of column views are kept. A view is named
  by its family and its indices, and the object maps each name to the view, which is
  read at a level; a view that was never allocated has no data. The families have the
  extents the coupling gives to its own arrays of views. The level is taken to lie
  inside every view.
\<close>

datatype prog_slot =
    N_mode_i int | N_mode_c int
  | Q_aero_i int int | Q_aero_c int int
  | Q_gas int

type_synonym ColumnView = "nat \<Rightarrow> real"

type_synonym Prognostics = "prog_slot \<Rightarrow> ColumnView option"

fun slot_in_extent :: "prog_slot \<Rightarrow> bool" where
  "slot_in_extent (N_mode_i m) \<longleftrightarrow> 0 \<le> m \<and> m < int num_aero_modes"
| "slot_in_extent (N_mode_c m) \<longleftrightarrow> 0 \<le> m \<and> m < int num_aero_modes"
| "slot_in_extent (Q_aero_i m a) \<longleftrightarrow>
     0 \<le> m \<and> m < int num_aero_modes \<and> 0 \<le> a \<and> a < int num_aero_species"
| "slot_in_extent (Q_aero_c m a) \<longleftrightarrow>
     0 \<le> m \<and> m < int num_aero_modes \<and> 0 \<le> a \<and> a < int num_aero_species"
| "slot_in_extent (Q_gas g) \<longleftrightarrow> 0 \<le> g \<and> g < int num_aero_gases"

definition progs_read :: "Prognostics \<Rightarrow> prog_slot \<Rightarrow> nat \<Rightarrow> error + real" where
  "progs_read progs s k =
     (if slot_in_extent s
      then (case progs s of None \<Rightarrow> Inl NullView | Some v \<Rightarrow> Inr (v k))
      else Inl OutOfBounds)"

definition progs_write :: "Prognostics \<Rightarrow> prog_slot \<Rightarrow> nat \<Rightarrow> real \<Rightarrow> error + Prognostics" where
  "progs_write progs s k x =
     (if slot_in_extent s
      then (case progs s of None \<Rightarrow> Inl NullView
            | Some v \<Rightarrow> Inr (progs(s \<mapsto> v(k := x))))
      else Inl OutOfBounds)"

text \<open>The loop \<open>for (int i = 0; i < gas_pcnst(); ++i)\<close> over a body that may fail.\<close>

fun cnst_loop :: "(int \<Rightarrow> 's \<Rightarrow> error + 's) \<Rightarrow> int list \<Rightarrow> 's \<Rightarrow> error + 's" where
  "cnst_loop body [] s = Inr s"
| "cnst_loop body (i # rest) s = bind_res (body i s) (cnst_loop body rest)"

text \<open>The two assignments \<open>q[i] = x; qqcw[i] = y;\<close> to a pair of work arrays.\<close>

definition set_pair ::
  "int \<Rightarrow> real \<Rightarrow> real \<Rightarrow> real list \<times> real list \<Rightarrow> error + real list \<times> real list" where
  "set_pair i x y = (\<lambda>(q, qqcw).
     bind_res (view_set q i x) (\<lambda>q1.
     bind_res (view_set qqcw i y) (\<lambda>qqcw1. Inr (q1, qqcw1))))"

subsection \<open>transfer\_prognostics\_to\_work\_arrays\<close>

text \<open>
  \<open>aerosol_index_for_mode\<close> belongs to mam4xx and is a parameter. The body of the loop
  at constituent \<open>i\<close>, with the work arrays \<open>q\<close> and \<open>qqcw\<close> as the state.
\<close>

definition prognostics_to_work_arrays_at ::
  "(ModeIndex \<Rightarrow> AeroId \<Rightarrow> int) \<Rightarrow> Prognostics \<Rightarrow> nat \<Rightarrow> int
     \<Rightarrow> real list \<times> real list \<Rightarrow> error + real list \<times> real list" where
  "prognostics_to_work_arrays_at aerosol_index_for_mode progs k i qs =
     bind_res (view_at mode_for_cnst i) (\<lambda>mode_index.
     bind_res (view_at aero_for_cnst i) (\<lambda>aero_id.
     bind_res (view_at gas_for_cnst i) (\<lambda>gas_id.
       if gas_id \<noteq> NoGas then
         (let g = GasId_int gas_id in
          bind_res (progs_read progs (Q_gas g) k) (\<lambda>x.
          bind_res (progs_read progs (Q_gas g) k) (\<lambda>y. set_pair i x y qs)))
       else
         (let m = ModeIndex_int mode_index in
          if aero_id \<noteq> NoAero then
            (let a = aerosol_index_for_mode mode_index aero_id in
             bind_res (progs_read progs (Q_aero_i m a) k) (\<lambda>x.
             bind_res (progs_read progs (Q_aero_c m a) k) (\<lambda>y. set_pair i x y qs)))
          else
            bind_res (progs_read progs (N_mode_i m) k) (\<lambda>x.
            bind_res (progs_read progs (N_mode_c m) k) (\<lambda>y. set_pair i x y qs))))))"

definition transfer_prognostics_to_work_arrays ::
  "(ModeIndex \<Rightarrow> AeroId \<Rightarrow> int) \<Rightarrow> Prognostics \<Rightarrow> nat \<Rightarrow> real list \<Rightarrow> real list
     \<Rightarrow> error + real list \<times> real list" where
  "transfer_prognostics_to_work_arrays aerosol_index_for_mode progs k q qqcw =
     cnst_loop (prognostics_to_work_arrays_at aerosol_index_for_mode progs k)
       (map int [0..<gas_pcnst]) (q, qqcw)"

subsection \<open>convert\_work\_arrays\_to\_vmr and convert\_work\_arrays\_to\_mmr\<close>

text \<open>
  The two functions have the same body, with \<open>mam4::conversions::vmr_from_mmr\<close> in the
  one and \<open>mam4::conversions::mmr_from_vmr\<close> in the other; \<open>convert_work_arrays_at\<close> is
  this body with the conversion as \<open>conv\<close>, reading the arrays \<open>src\<close> and \<open>srccw\<close> and
  writing the pair of arrays of the state. The conversions and the molecular weights
  \<open>mam4::gas_species(g).molecular_weight\<close> and \<open>mam4::aero_species(a).molecular_weight\<close>
  belong to mam4xx and are parameters. The arrays read and the arrays written are
  taken to be different arrays.
\<close>

definition convert_work_arrays_at ::
  "(real \<Rightarrow> real \<Rightarrow> real) \<Rightarrow> (ModeIndex \<Rightarrow> AeroId \<Rightarrow> int) \<Rightarrow> (int \<Rightarrow> real) \<Rightarrow> (int \<Rightarrow> real)
     \<Rightarrow> real list \<Rightarrow> real list \<Rightarrow> int \<Rightarrow> real list \<times> real list
     \<Rightarrow> error + real list \<times> real list" where
  "convert_work_arrays_at conv aerosol_index_for_mode gas_species_mw aero_species_mw
       src srccw i dst =
     bind_res (view_at mode_for_cnst i) (\<lambda>mode_index.
     bind_res (view_at aero_for_cnst i) (\<lambda>aero_id.
     bind_res (view_at gas_for_cnst i) (\<lambda>gas_id.
       if gas_id \<noteq> NoGas then
         (let g = GasId_int gas_id; mw = gas_species_mw g in
          bind_res (view_at src i) (\<lambda>x.
          bind_res (view_at srccw i) (\<lambda>y. set_pair i (conv x mw) (conv y mw) dst)))
       else
         if aero_id \<noteq> NoAero then
           (let a = aerosol_index_for_mode mode_index aero_id; mw = aero_species_mw a in
            bind_res (view_at src i) (\<lambda>x.
            bind_res (view_at srccw i) (\<lambda>y. set_pair i (conv x mw) (conv y mw) dst)))
         else
           bind_res (view_at src i) (\<lambda>x.
           bind_res (view_at srccw i) (\<lambda>y. set_pair i x y dst)))))"

definition convert_work_arrays_to_vmr ::
  "(real \<Rightarrow> real \<Rightarrow> real) \<Rightarrow> (ModeIndex \<Rightarrow> AeroId \<Rightarrow> int) \<Rightarrow> (int \<Rightarrow> real) \<Rightarrow> (int \<Rightarrow> real)
     \<Rightarrow> real list \<Rightarrow> real list \<Rightarrow> real list \<Rightarrow> real list \<Rightarrow> error + real list \<times> real list" where
  "convert_work_arrays_to_vmr vmr_from_mmr aerosol_index_for_mode gas_species_mw
       aero_species_mw q qqcw vmr vmrcw =
     cnst_loop (convert_work_arrays_at vmr_from_mmr aerosol_index_for_mode gas_species_mw
                  aero_species_mw q qqcw)
       (map int [0..<gas_pcnst]) (vmr, vmrcw)"

definition convert_work_arrays_to_mmr ::
  "(real \<Rightarrow> real \<Rightarrow> real) \<Rightarrow> (ModeIndex \<Rightarrow> AeroId \<Rightarrow> int) \<Rightarrow> (int \<Rightarrow> real) \<Rightarrow> (int \<Rightarrow> real)
     \<Rightarrow> real list \<Rightarrow> real list \<Rightarrow> real list \<Rightarrow> real list \<Rightarrow> error + real list \<times> real list" where
  "convert_work_arrays_to_mmr mmr_from_vmr aerosol_index_for_mode gas_species_mw
       aero_species_mw vmr vmrcw q qqcw =
     cnst_loop (convert_work_arrays_at mmr_from_vmr aerosol_index_for_mode gas_species_mw
                  aero_species_mw vmr vmrcw)
       (map int [0..<gas_pcnst]) (q, qqcw)"

subsection \<open>transfer\_work\_arrays\_to\_prognostics\<close>

text \<open>The body of the loop at constituent \<open>i\<close>, with the Prognostics object as the
  state. A gas is written from \<open>q\<close> alone.\<close>

definition work_arrays_to_prognostics_at ::
  "(ModeIndex \<Rightarrow> AeroId \<Rightarrow> int) \<Rightarrow> real list \<Rightarrow> real list \<Rightarrow> nat \<Rightarrow> int \<Rightarrow> Prognostics
     \<Rightarrow> error + Prognostics" where
  "work_arrays_to_prognostics_at aerosol_index_for_mode q qqcw k i progs =
     bind_res (view_at mode_for_cnst i) (\<lambda>mode_index.
     bind_res (view_at aero_for_cnst i) (\<lambda>aero_id.
     bind_res (view_at gas_for_cnst i) (\<lambda>gas_id.
       if gas_id \<noteq> NoGas then
         (let g = GasId_int gas_id in
          bind_res (view_at q i) (\<lambda>x. progs_write progs (Q_gas g) k x))
       else
         (let m = ModeIndex_int mode_index in
          if aero_id \<noteq> NoAero then
            (let a = aerosol_index_for_mode mode_index aero_id in
             bind_res (view_at q i) (\<lambda>x.
             bind_res (progs_write progs (Q_aero_i m a) k x) (\<lambda>progs1.
             bind_res (view_at qqcw i) (\<lambda>y. progs_write progs1 (Q_aero_c m a) k y))))
          else
            bind_res (view_at q i) (\<lambda>x.
            bind_res (progs_write progs (N_mode_i m) k x) (\<lambda>progs1.
            bind_res (view_at qqcw i) (\<lambda>y. progs_write progs1 (N_mode_c m) k y)))))))"

definition transfer_work_arrays_to_prognostics ::
  "(ModeIndex \<Rightarrow> AeroId \<Rightarrow> int) \<Rightarrow> real list \<Rightarrow> real list \<Rightarrow> Prognostics \<Rightarrow> nat
     \<Rightarrow> error + Prognostics" where
  "transfer_work_arrays_to_prognostics aerosol_index_for_mode q qqcw progs k =
     cnst_loop (work_arrays_to_prognostics_at aerosol_index_for_mode q qqcw k)
       (map int [0..<gas_pcnst]) progs"

subsection \<open>What the round trip is to leave behind\<close>

text \<open>
  The view of a Prognostics object that constituent \<open>i\<close> stands for in \<open>q\<close> and the one
  it stands for in \<open>qqcw\<close>, whether the constituent is a modal number, and its molecular
  weight if it has one.
\<close>

definition cnst_is_number :: "nat \<Rightarrow> bool" where
  "cnst_is_number i \<longleftrightarrow> gas_for_cnst ! i = NoGas \<and> aero_for_cnst ! i = NoAero"

definition cnst_slot :: "(ModeIndex \<Rightarrow> AeroId \<Rightarrow> int) \<Rightarrow> nat \<Rightarrow> prog_slot" where
  "cnst_slot aerosol_index_for_mode i =
     (if gas_for_cnst ! i \<noteq> NoGas then Q_gas (GasId_int (gas_for_cnst ! i))
      else if aero_for_cnst ! i \<noteq> NoAero
        then Q_aero_i (ModeIndex_int (mode_for_cnst ! i))
               (aerosol_index_for_mode (mode_for_cnst ! i) (aero_for_cnst ! i))
        else N_mode_i (ModeIndex_int (mode_for_cnst ! i)))"

definition cnst_slot_cw :: "(ModeIndex \<Rightarrow> AeroId \<Rightarrow> int) \<Rightarrow> nat \<Rightarrow> prog_slot" where
  "cnst_slot_cw aerosol_index_for_mode i =
     (if gas_for_cnst ! i \<noteq> NoGas then Q_gas (GasId_int (gas_for_cnst ! i))
      else if aero_for_cnst ! i \<noteq> NoAero
        then Q_aero_c (ModeIndex_int (mode_for_cnst ! i))
               (aerosol_index_for_mode (mode_for_cnst ! i) (aero_for_cnst ! i))
        else N_mode_c (ModeIndex_int (mode_for_cnst ! i)))"

definition cnst_convert ::
  "(real \<Rightarrow> real \<Rightarrow> real) \<Rightarrow> (ModeIndex \<Rightarrow> AeroId \<Rightarrow> int) \<Rightarrow> (int \<Rightarrow> real) \<Rightarrow> (int \<Rightarrow> real)
     \<Rightarrow> nat \<Rightarrow> real \<Rightarrow> real" where
  "cnst_convert conv aerosol_index_for_mode gas_species_mw aero_species_mw i x =
     (if gas_for_cnst ! i \<noteq> NoGas then conv x (gas_species_mw (GasId_int (gas_for_cnst ! i)))
      else if aero_for_cnst ! i \<noteq> NoAero
        then conv x (aero_species_mw
                       (aerosol_index_for_mode (mode_for_cnst ! i) (aero_for_cnst ! i)))
        else x)"

text \<open>
  A fully populated object has every view inside the extents allocated. The aerosol
  index of every aerosol constituent is to lie inside the extent, and the two
  conversions are to be inverse to each other at every molecular weight in use.
\<close>

definition fully_populated :: "Prognostics \<Rightarrow> bool" where
  "fully_populated progs \<longleftrightarrow>
     (\<forall>m<num_aero_modes. progs (N_mode_i (int m)) \<noteq> None \<and> progs (N_mode_c (int m)) \<noteq> None
        \<and> (\<forall>a<num_aero_species. progs (Q_aero_i (int m) (int a)) \<noteq> None
                                  \<and> progs (Q_aero_c (int m) (int a)) \<noteq> None))
   \<and> (\<forall>g<num_aero_gases. progs (Q_gas (int g)) \<noteq> None)"

definition aerosol_indices_in_extent :: "(ModeIndex \<Rightarrow> AeroId \<Rightarrow> int) \<Rightarrow> bool" where
  "aerosol_indices_in_extent aerosol_index_for_mode \<longleftrightarrow>
     list_all (\<lambda>i. aero_for_cnst ! i = NoAero
                  \<or> (0 \<le> aerosol_index_for_mode (mode_for_cnst ! i) (aero_for_cnst ! i)
                      \<and> aerosol_index_for_mode (mode_for_cnst ! i) (aero_for_cnst ! i)
                          < int num_aero_species))
       [0..<gas_pcnst]"

definition inverse_conversions ::
  "(real \<Rightarrow> real \<Rightarrow> real) \<Rightarrow> (real \<Rightarrow> real \<Rightarrow> real) \<Rightarrow> (ModeIndex \<Rightarrow> AeroId \<Rightarrow> int)
     \<Rightarrow> (int \<Rightarrow> real) \<Rightarrow> (int \<Rightarrow> real) \<Rightarrow> bool" where
  "inverse_conversions vmr_from_mmr mmr_from_vmr aerosol_index_for_mode gas_species_mw
       aero_species_mw \<longleftrightarrow>
     (\<forall>i<gas_pcnst. \<forall>x.
        cnst_convert mmr_from_vmr aerosol_index_for_mode gas_species_mw aero_species_mw i
          (cnst_convert vmr_from_mmr aerosol_index_for_mode gas_species_mw aero_species_mw i x)
        = x)"

text \<open>The value a view holds at level \<open>k\<close>, read without the checks of
  \<open>progs_read\<close>.\<close>

definition level_value :: "Prognostics \<Rightarrow> prog_slot \<Rightarrow> nat \<Rightarrow> real" where
  "level_value progs s k = (case progs s of None \<Rightarrow> 0 | Some v \<Rightarrow> v k)"

text \<open>Two objects agree at level \<open>k\<close> of a view that both have allocated.\<close>

definition restored_at :: "nat \<Rightarrow> Prognostics \<Rightarrow> Prognostics \<Rightarrow> prog_slot \<Rightarrow> bool" where
  "restored_at k progs progs' s =
     (case (progs s, progs' s) of (Some v, Some v') \<Rightarrow> v' k = v k | _ \<Rightarrow> False)"

text \<open>
  What the loop of \<open>transfer_work_arrays_to_prognostics\<close> leaves when the work arrays
  hold the values of \<open>orig\<close>: the views of the set \<open>S\<close> that are allocated in both
  objects take level \<open>k\<close> from \<open>orig\<close>.
\<close>

definition overlay :: "prog_slot set \<Rightarrow> Prognostics \<Rightarrow> nat \<Rightarrow> Prognostics \<Rightarrow> Prognostics" where
  "overlay S orig k progs =
     (\<lambda>s. if s \<in> S
          then (case (orig s, progs s) of
                  (Some v, Some d) \<Rightarrow> Some (d(k := v k))
                | _ \<Rightarrow> progs s)
          else progs s)"

text \<open>
  An example: the aerosol indices of the four modes, molecular weights, the two
  conversions as multiplication and division by the ratio of the molecular weight to
  that of dry air, and an object whose views hold a different value for every view and
  level.
\<close>

fun index_in :: "AeroId list \<Rightarrow> AeroId \<Rightarrow> int" where
  "index_in [] aero = - 1"
| "index_in (x # xs) aero =
     (if x = aero then 0
      else (let r = index_in xs aero in if r < 0 then - 1 else r + 1))"

definition example_aerosol_index_for_mode :: "ModeIndex \<Rightarrow> AeroId \<Rightarrow> int" where
  "example_aerosol_index_for_mode mode aero =
     index_in (case mode of
                 Accum \<Rightarrow> [SOA, SO4, POM, BC, NaCl, DST, MOM]
               | Aitken \<Rightarrow> [SOA, SO4, NaCl, MOM]
               | Coarse \<Rightarrow> [DST, NaCl, SO4, BC, POM, SOA, MOM]
               | PC \<Rightarrow> [POM, BC, MOM]
               | NoMode \<Rightarrow> []) aero"

definition example_gas_species_mw :: "int \<Rightarrow> real" where
  "example_gas_species_mw g = 48 + real_of_int g"

definition example_aero_species_mw :: "int \<Rightarrow> real" where
  "example_aero_species_mw a = 12 + real_of_int a"

definition example_vmr_from_mmr :: "real \<Rightarrow> real \<Rightarrow> real" where
  "example_vmr_from_mmr mmr mw = mmr * 29 / mw"

definition example_mmr_from_vmr :: "real \<Rightarrow> real \<Rightarrow> real" where
  "example_mmr_from_vmr vmr mw = vmr * mw / 29"

fun example_progs :: Prognostics where
  "example_progs (N_mode_i m) = Some (\<lambda>k. 1000 + real_of_int m + real k)"
| "example_progs (N_mode_c m) = Some (\<lambda>k. 2000 + real_of_int m + real k)"
| "example_progs (Q_aero_i m a) = Some (\<lambda>k. 1 / (3 + real_of_int (7 * m + a) + real k))"
| "example_progs (Q_aero_c m a) = Some (\<lambda>k. 1 / (4 + real_of_int (7 * m + a) + real k))"
| "example_progs (Q_gas g) = Some (\<lambda>k. 1 / (5 + real_of_int g + real k))"

section \<open>Properties of the row distribution\<close>

lemma sdiv_nonneg_pos: "0 \<le> (n::int) \<Longrightarrow> 0 < R \<Longrightarrow> n sdiv R = n div R"
  by (cases "n = 0") (simp_all add: signed_divide_int_def)

lemma my_chunk_eq:
  assumes "0 \<le> n" "0 < R" "0 \<le> r"
  shows "my_chunk n R r = n div R + (if r < n mod R then 1 else 0)"
proof -
  have "n - n div R * R = n mod R" by (simp add: minus_div_mult_eq_mod)
  moreover have "n mod R = 0 \<Longrightarrow> \<not> r < n mod R \<or> True" by simp
  ultimately show ?thesis using assms
    by (auto simp: my_chunk_def Let_def sdiv_nonneg_pos)
qed

lemma fold_add_nth:
  "k \<le> length cg \<Longrightarrow> fold (\<lambda>ii s. s + cg ! ii) [0..<k] (a::'a::monoid_add) = a + sum_list (take k cg)"
proof (induction k arbitrary: a)
  case 0 then show ?case by simp
next
  case (Suc k)
  then have "take (Suc k) cg = take k cg @ [cg ! k]" by (simp add: take_Suc_conv_app_nth)
  with Suc show ?case by (simp add: add.assoc)
qed

lemma sum_list_take_map_upt:
  "k \<le> R \<Longrightarrow> sum_list (take k (map f [0..<R])) = (\<Sum>r<k. (f r :: int))"
  by (simp add: take_map sum_list_sum_nth atLeast0LessThan min_def  interv_sum_list_conv_sum_set_nat)

lemma sum_indicator_below:
  "(\<Sum>r<k. (if int r < m then 1 else 0 :: int)) = (if m \<le> 0 then 0 else min (int k) m)"
proof (induction k)
  case 0 then show ?case by simp
next
  case (Suc k) then show ?case by (auto simp: min_def)
qed

lemma my_start_eq:
  assumes "0 \<le> n" "0 < R" "r \<le> R"
  shows "my_start (chunks_glob n R) r = int r * (n div int R) + min (int r) (n mod int R)"
proof -
  have "my_start (chunks_glob n R) r = (\<Sum>i<r. my_chunk n (int R) (int i))"
    using assms by (simp add: my_start_def fold_add_nth chunks_glob_def sum_list_take_map_upt)
  also have "\<dots> = (\<Sum>i<r. n div int R + (if int i < n mod int R then 1 else 0))"
    using assms by (simp add: my_chunk_eq)
  also have "\<dots> = int r * (n div int R) + (\<Sum>i<r. (if int i < n mod int R then 1 else 0))"
    by (simp add: sum.distrib)
  also have "\<dots> = int r * (n div int R) + min (int r) (n mod int R)"
  proof -
    have "0 \<le> n mod int R" using assms by simp
    then show ?thesis by (auto simp: sum_indicator_below min_def)
  qed
  finally show ?thesis .
qed

lemma chunk_check_eq:
  assumes "0 \<le> n" "0 < R"
  shows "chunk_check (chunks_glob n R) R = n"
proof -
  have "chunk_check (chunks_glob n R) R = my_start (chunks_glob n R) R"
    by (simp add: chunk_check_def my_start_def)
  also have "\<dots> = int R * (n div int R) + min (int R) (n mod int R)"
    using assms by (simp add: my_start_eq)
  also have "\<dots> = n"
  proof -
    have "n mod int R < int R" using assms by simp
    then show ?thesis by (simp add: min_def)
  qed
  finally show ?thesis .
qed

lemma my_start_Suc:
  "r < length cg \<Longrightarrow> my_start cg (Suc r) = my_start cg r + cg ! r"
  by (simp add: my_start_def)

lemma my_start_mono:
  assumes "0 \<le> n" "0 < R" "r \<le> s" "s \<le> R"
  shows "my_start (chunks_glob n R) r + my_chunk n (int R) (int r) \<le> my_start (chunks_glob n R) s \<or> r = s"
proof (cases "r = s")
  case True then show ?thesis by simp
next
  case False
  with assms have rs: "Suc r \<le> s" by simp
  have q: "0 \<le> n div int R" using assms by (simp add: pos_imp_zdiv_nonneg_iff)
  have m: "0 \<le> n mod int R" using assms by simp
  have "my_start (chunks_glob n R) r + my_chunk n (int R) (int r)
        = my_start (chunks_glob n R) (Suc r)"
    using assms rs by (simp add: my_start_Suc chunks_glob_def)
  also have "\<dots> = int (Suc r) * (n div int R) + min (int (Suc r)) (n mod int R)"
    using assms rs by (intro my_start_eq) simp_all
  also have "\<dots> \<le> int s * (n div int R) + min (int s) (n mod int R)"
  proof -
    have "int (Suc r) * (n div int R) \<le> int s * (n div int R)"
      using rs q by (intro mult_right_mono) simp_all
    moreover have "min (int (Suc r)) (n mod int R) \<le> min (int s) (n mod int R)"
      using rs by (simp add: min_def)
    ultimately show ?thesis by linarith
  qed
  also have "\<dots> = my_start (chunks_glob n R) s"
    using assms by (simp add: my_start_eq)
  finally show ?thesis by simp
qed

text \<open>
  Claim C7. For every entry count \<open>n \<ge> 0\<close> and every rank count \<open>R > 0\<close>: the fatal
  chunk-sum check passes on every rank, so the partition step returns the rank's start
  and chunk; the chunks of all ranks sum to \<open>n\<close>; two chunks differ by at most one and
  a lower rank never has the smaller chunk; no chunk is negative; rank \<open>0\<close> starts at
  \<open>0\<close>, each next rank starts where the previous range ends, the last range ends at
  \<open>n\<close>, and the range of a lower rank ends before the range of a higher rank starts.
\<close>

theorem partition_rows_exact:
  assumes "0 \<le> n" and "0 < R"
  shows "(\<forall>r<R. partition_rows n R r
                  = Inr (my_start (chunks_glob n R) r, my_chunk n (int R) (int r)))
       \<and> (\<Sum>r<R. my_chunk n (int R) (int r)) = n
       \<and> (\<forall>r<R. \<forall>s<R. \<bar>my_chunk n (int R) (int r) - my_chunk n (int R) (int s)\<bar> \<le> 1
                       \<and> (r \<le> s \<longrightarrow> my_chunk n (int R) (int s) \<le> my_chunk n (int R) (int r)))
       \<and> (\<forall>r<R. 0 \<le> my_chunk n (int R) (int r))
       \<and> my_start (chunks_glob n R) 0 = 0
       \<and> (\<forall>r<R. my_start (chunks_glob n R) (Suc r)
                  = my_start (chunks_glob n R) r + my_chunk n (int R) (int r))
       \<and> my_start (chunks_glob n R) R = n
       \<and> (\<forall>r<R. \<forall>s<R. r < s \<longrightarrow>
             my_start (chunks_glob n R) r + my_chunk n (int R) (int r)
               \<le> my_start (chunks_glob n R) s)"
proof -
  let ?cg = "chunks_glob n R"
  have chk: "chunk_check ?cg R = n" using assms by (rule chunk_check_eq)
  have c1: "\<forall>r<R. partition_rows n R r = Inr (my_start ?cg r, my_chunk n (int R) (int r))"
    by (simp add: partition_rows_def Let_def chk)
  have "(\<Sum>r<R. my_chunk n (int R) (int r)) = sum_list (take R ?cg)"
    using sum_list_take_map_upt [of R R "\<lambda>r. my_chunk n (int R) (int r)"]
    by (simp add: chunks_glob_def)
  also have "\<dots> = chunk_check ?cg R"
    by (simp add: chunk_check_def fold_add_nth chunks_glob_def)
  finally have c2: "(\<Sum>r<R. my_chunk n (int R) (int r)) = n" using chk by simp
  have c3: "\<forall>r<R. \<forall>s<R. \<bar>my_chunk n (int R) (int r) - my_chunk n (int R) (int s)\<bar> \<le> 1
                       \<and> (r \<le> s \<longrightarrow> my_chunk n (int R) (int s) \<le> my_chunk n (int R) (int r))"
    using assms by (simp add: my_chunk_eq)
  have c4: "\<forall>r<R. 0 \<le> my_chunk n (int R) (int r)"
    using assms by (simp add: my_chunk_eq pos_imp_zdiv_nonneg_iff)
  have c5: "my_start ?cg 0 = 0" by (simp add: my_start_def)
  have c6: "\<forall>r<R. my_start ?cg (Suc r) = my_start ?cg r + my_chunk n (int R) (int r)"
    by (simp add: my_start_Suc chunks_glob_def)
  have c7: "my_start ?cg R = n" using chk by (simp add: chunk_check_def my_start_def)
  have c8: "\<forall>r<R. \<forall>s<R. r < s \<longrightarrow>
             my_start ?cg r + my_chunk n (int R) (int r) \<le> my_start ?cg s"
  proof (intro allI impI)
    fix r s assume "r < R" "s < R" "r < s"
    then show "my_start ?cg r + my_chunk n (int R) (int r) \<le> my_start ?cg s"
      using my_start_mono [OF assms, of r s] by simp
  qed
  from c1 c2 c3 c4 c5 c6 c7 c8 show ?thesis by blast
qed

theorem partition_rows_exact_witness:
  "(0::int) \<le> 10 \<and> (0::nat) < 4
   \<and> partition_rows 10 4 0 = Inr (0, 3) \<and> partition_rows 10 4 1 = Inr (3, 3)
   \<and> partition_rows 10 4 2 = Inr (6, 2) \<and> partition_rows 10 4 3 = Inr (8, 2)"
  using partition_rows_exact [of 10 4]
  by (simp add: my_start_def chunks_glob_def my_chunk_def signed_divide_int_def upt_rec numeral_eq_Suc)

section \<open>Properties of the grouping of rows\<close>


lemma group_loop_in_bounds:
  "\<forall>ii\<in>set iis. ii < length tgt \<Longrightarrow> \<exists>g'. group_loop tgt start iis g = Inr g'"
  by (induction iis arbitrary: g) (simp_all add: bind_res_def view_at_def)

lemma group_chunk_result:
  "length tgt = nat chunk \<Longrightarrow>
     (0 < chunk \<longrightarrow> (\<exists>g. group_chunk tgt start chunk = Inr g))
   \<and> (chunk \<le> 0 \<longrightarrow> group_chunk tgt start chunk = Inl OutOfBounds)"
  using group_loop_in_bounds [of "[1..<nat chunk]" tgt]
  by (auto simp: group_chunk_def bind_res_def view_at_def)

lemma all_chunks_nonempty_iff:
  assumes "0 \<le> n" "0 < R"
  shows "(\<forall>r<R. 0 < my_chunk n (int R) (int r)) \<longleftrightarrow> int R \<le> n"
proof
  assume a: "\<forall>r<R. 0 < my_chunk n (int R) (int r)"
  show "int R \<le> n"
  proof (rule ccontr)
    assume "\<not> int R \<le> n"
    then have lt: "n < int R" by simp
    with assms have "n div int R = 0" "n mod int R = n" by (simp_all add: div_pos_pos_trivial)
    moreover have "R - 1 < R" using assms by simp
    ultimately have "my_chunk n (int R) (int (R - 1)) = 0"
      using assms lt by (simp add: my_chunk_eq)
    with a \<open>R - 1 < R\<close> show False by fastforce
  qed
next
  assume "int R \<le> n"
  then have "int R div int R \<le> n div int R" using assms
    by (intro zdiv_mono1) simp_all
  then have "1 \<le> n div int R" using assms by simp
  then show "\<forall>r<R. 0 < my_chunk n (int R) (int r)"
    using assms by (simp add: my_chunk_eq)
qed

text \<open>
  Claim C10. The grouping reads entry \<open>0\<close> of the rank's chunk before anything else.
  On every rank it stays in bounds exactly when that rank's chunk is non-empty, and it
  is out of bounds exactly when the chunk is empty; all ranks stay in bounds exactly when
  the file has at least as many rows as there are ranks; with fewer rows the highest
  rank reads out of bounds.
\<close>

theorem group_rows_needs_nonempty_chunks:
  assumes "0 < R"
  shows "(\<forall>r<R. (\<exists>g. group_rows_on_rank row R r = Inr g)
                  \<longleftrightarrow> 0 < my_chunk (int (length row)) (int R) (int r))
       \<and> (\<forall>r<R. group_rows_on_rank row R r = Inl OutOfBounds
                  \<longleftrightarrow> my_chunk (int (length row)) (int R) (int r) = 0)
       \<and> ((\<forall>r<R. \<exists>g. group_rows_on_rank row R r = Inr g) \<longleftrightarrow> R \<le> length row)
       \<and> (length row < R \<longrightarrow> group_rows_on_rank row R (R - 1) = Inl OutOfBounds)"
proof -
  let ?n = "int (length row)"
  have n0: "0 \<le> ?n" by simp
  have part: "partition_rows ?n R r
                = Inr (my_start (chunks_glob ?n R) r, my_chunk ?n (int R) (int r))" for r
    using chunk_check_eq [OF n0 assms] by (simp add: partition_rows_def Let_def)
  have nonneg: "0 \<le> my_chunk ?n (int R) (int r)" for r
    using assms by (simp add: my_chunk_eq pos_imp_zdiv_nonneg_iff)
  have len: "length (read_chunk row st ch) = nat ch" for st ch
    by (simp add: read_chunk_def)
  have gc: "(0 < my_chunk ?n (int R) (int r) \<longrightarrow>
               (\<exists>g. group_chunk (read_chunk row (my_start (chunks_glob ?n R) r)
                                 (my_chunk ?n (int R) (int r)))
                       (my_start (chunks_glob ?n R) r) (my_chunk ?n (int R) (int r)) = Inr g))
           \<and> (my_chunk ?n (int R) (int r) \<le> 0 \<longrightarrow>
               group_chunk (read_chunk row (my_start (chunks_glob ?n R) r)
                                 (my_chunk ?n (int R) (int r)))
                       (my_start (chunks_glob ?n R) r) (my_chunk ?n (int R) (int r))
                 = Inl OutOfBounds)" for r
    by (rule group_chunk_result) (rule len)
  have pos: "(\<exists>g. group_rows_on_rank row R r = Inr g) \<longleftrightarrow> 0 < my_chunk ?n (int R) (int r)" for r
    using gc [of r]
    by (cases "0 < my_chunk ?n (int R) (int r)")
       (auto simp: group_rows_on_rank_def part bind_res_def)
  have zero: "group_rows_on_rank row R r = Inl OutOfBounds \<longleftrightarrow> my_chunk ?n (int R) (int r) = 0" for r
    using gc [of r] nonneg [of r]
    by (cases "0 < my_chunk ?n (int R) (int r)")
       (auto simp: group_rows_on_rank_def part bind_res_def)
  have all: "(\<forall>r<R. \<exists>g. group_rows_on_rank row R r = Inr g) \<longleftrightarrow> R \<le> length row"
    using all_chunks_nonempty_iff [OF n0 assms] by (simp add: pos)
  have last: "length row < R \<longrightarrow> group_rows_on_rank row R (R - 1) = Inl OutOfBounds"
  proof
    assume lt: "length row < R"
    then have "?n div int R = 0" "?n mod int R = ?n" by simp_all
    then have "my_chunk ?n (int R) (int (R - 1)) = 0"
      using assms lt by (simp add: my_chunk_eq)
    then show "group_rows_on_rank row R (R - 1) = Inl OutOfBounds" by (simp add: zero)
  qed
  from pos zero all last show ?thesis by blast
qed

theorem group_rows_needs_nonempty_chunks_witness:
  "(0::nat) < 4 \<and> length [5, 5, 7 :: int] < 4
   \<and> group_rows_on_rank [5, 5, 7] 4 3 = Inl OutOfBounds
   \<and> my_chunk 3 4 3 = 0
   \<and> (\<exists>g. group_rows_on_rank [5, 5, 7] 4 2 = Inr g)"
  using group_rows_needs_nonempty_chunks [of 4 "[5, 5, 7]"]
  by (simp add: my_chunk_def signed_divide_int_def)

section \<open>Properties of GSSegment::check\<close>

subsection \<open>Rounding\<close>














subsection \<open>Subtracting one and comparing with the tolerance\<close>










lemma fge_PlusInf_Finite: "fge PlusInf (Finite a b) = True"
  by simp



subsection \<open>The check\<close>


lemma tolerance_value: "fmul epsilon (Finite 100 0) = Finite 100 (- 52)"
  by code_simp

lemma fold_index_foldl:
  assumes "n \<le> length ws"
  shows "fold (\<lambda>ii lsum. f lsum (ws ! ii)) [0..<n] a = foldl f a (take n ws)"
  using assms
proof (induction n)
  case 0
  then show ?case by simp
next
  case (Suc n)
  then have "take (Suc n) ws = take n ws @ [ws ! n]" by (simp add: take_Suc_conv_app_nth)
  with Suc show ?case by simp
qed



lemma GSSegment_check_sum:
  assumes "seg_wf s"
  shows "GSSegment_check s
           = Inr (\<not> fge (fabs (fsub (weight_sum (m_weights s)) (Finite 1 0))) (Finite 100 (- 52)))"
proof -
  have len: "nat (m_length s) = length (m_weights s)"
    using assms by (simp add: seg_wf_def nat_eq_iff)
  have "fold (\<lambda>ii lsum. fadd lsum (m_weights s ! ii)) [0..<nat (m_length s)] (Finite 0 0)
          = weight_sum (m_weights s)"
    unfolding len weight_sum_def by (simp add: fold_index_foldl)
  then show ?thesis
    using assms by (simp add: GSSegment_check_def seg_wf_def Let_def tolerance_value)
qed






text \<open>
  The weights \<open>824 * (1/824)\<close>: their sum is within the tolerance of one, their
  accumulated sum is \<open>1 + 101 * epsilon\<close>, and \<open>check\<close> returns false.
\<close>

lemma example_824:
  "list_all double_ok (m_weights example_seg_824)"
  "\<bar>sum_list (map valof (m_weights example_seg_824)) - 1\<bar> < 100 * valof epsilon"
  "weight_sum (m_weights example_seg_824) = Finite 4503599627370597 (- 52)"
  "GSSegment_check example_seg_824 = Inr False"
proof -
  show "list_all double_ok (m_weights example_seg_824)"
    by (simp add: example_seg_824_def list_all_iff)
  show "\<bar>sum_list (map valof (m_weights example_seg_824)) - 1\<bar> < 100 * valof epsilon"
    by (simp add: example_seg_824_def sum_list_replicate epsilon_def)
  show s: "weight_sum (m_weights example_seg_824) = Finite 4503599627370597 (- 52)"
    by code_simp
  have "seg_wf example_seg_824" by (simp add: seg_wf_def example_seg_824_def)
  then have c: "GSSegment_check example_seg_824
      = Inr (\<not> fge (fabs (fsub (Finite 4503599627370597 (- 52)) (Finite 1 0))) (Finite 100 (- 52)))"
    unfolding s [symmetric] by (rule GSSegment_check_sum)
  have "fge (fabs (fsub (Finite 4503599627370597 (- 52)) (Finite 1 0))) (Finite 100 (- 52))"
    by code_simp
  with c show "GSSegment_check example_seg_824 = Inr False" by simp
qed

section \<open>Properties of GSMap::set\_unique\_source\_dofs\<close>

lemma view_at_Inr [simp]: "i < length v \<Longrightarrow> view_at v (int i) = Inr (v ! i)"
  by (simp add: view_at_def)

lemma view_set_Inr [simp]: "i < length v \<Longrightarrow> view_set v (int i) x = Inr (v[i := x])"
  by (simp add: view_set_def)

lemma bind_res_Inr [simp]: "bind_res (Inr x) f = f x"
  by (simp add: bind_res_def)

lemma bind_res_Inl [simp]: "bind_res (Inl e) f = Inl e"
  by (simp add: bind_res_def)

lemma seg_wf_nat_length:
  "seg_wf s \<Longrightarrow> nat (m_length s) = length (m_source_dofs s)
     \<and> nat (m_length s) = length (m_source_idx s) \<and> nat (m_length s) = length (m_weights s)"
  by (auto simp: seg_wf_def)

lemma collect_seg_result:
  "\<forall>ii\<in>set iis. ii < length src \<Longrightarrow>
   \<exists>u'. collect_seg src iis u = Inr u' \<and> set u' = set u \<union> (\<lambda>ii. src ! ii) ` set iis
        \<and> (distinct u \<longrightarrow> distinct u')"
proof (induction iis arbitrary: u)
  case Nil
  then show ?case by simp
next
  case (Cons ii iis)
  let ?u1 = "if src ! ii \<in> set u then u else u @ [src ! ii]"
  from Cons.prems have "\<forall>ii\<in>set iis. ii < length src" by simp
  from Cons.IH [OF this, of ?u1] obtain u' where
    u': "collect_seg src iis ?u1 = Inr u'" "set u' = set ?u1 \<union> (\<lambda>ii. src ! ii) ` set iis"
        "distinct ?u1 \<longrightarrow> distinct u'" by blast
  have "collect_seg src (ii # iis) u = Inr u'" using Cons.prems u'(1) by simp
  moreover have "set u' = set u \<union> (\<lambda>ii. src ! ii) ` set (ii # iis)" using u'(2) by auto
  moreover have "distinct u \<longrightarrow> distinct u'" using u'(3) by auto
  ultimately show ?case by blast
qed

lemma nth_image_upt: "(\<lambda>ii. xs ! ii) ` set [0..<length xs] = set xs"
  by (auto simp: in_set_conv_nth)

lemma collect_seg_upt:
  "\<exists>u'. collect_seg src [0..<length src] u = Inr u' \<and> set u' = set u \<union> set src
        \<and> (distinct u \<longrightarrow> distinct u')"
proof -
  have "\<forall>ii\<in>set [0..<length src]. ii < length src" by simp
  from collect_seg_result [OF this, of u] show ?thesis
    by (simp only: nth_image_upt)
qed

lemma collect_all_result:
  "\<forall>i\<in>set isegs. i < length segs \<and> seg_wf (segs ! i) \<Longrightarrow>
   \<exists>u'. collect_all segs isegs u = Inr u'
        \<and> set u' = set u \<union> (\<Union>i\<in>set isegs. set (m_source_dofs (segs ! i)))
        \<and> (distinct u \<longrightarrow> distinct u')"
proof (induction isegs arbitrary: u)
  case Nil
  then show ?case by simp
next
  case (Cons i isegs)
  let ?src = "m_source_dofs (segs ! i)"
  from Cons.prems have i: "i < length segs" "seg_wf (segs ! i)" by simp_all
  then have n: "nat (m_length (segs ! i)) = length ?src" by (simp add: seg_wf_nat_length)
  from collect_seg_upt [of ?src u] obtain u1 where
    u1: "collect_seg ?src [0..<length ?src] u = Inr u1" "set u1 = set u \<union> set ?src"
        "distinct u \<longrightarrow> distinct u1" by blast
  from Cons.prems have "\<forall>i\<in>set isegs. i < length segs \<and> seg_wf (segs ! i)" by simp
  from Cons.IH [OF this, of u1] obtain u' where
    u': "collect_all segs isegs u1 = Inr u'"
        "set u' = set u1 \<union> (\<Union>i\<in>set isegs. set (m_source_dofs (segs ! i)))"
        "distinct u1 \<longrightarrow> distinct u'" by blast
  have "collect_all segs (i # isegs) u = Inr u'" using i n u1(1) u'(1) by simp
  moreover have "set u' = set u \<union> (\<Union>i\<in>set (i # isegs). set (m_source_dofs (segs ! i)))"
    using u1(2) u'(2) by auto
  moreover have "distinct u \<longrightarrow> distinct u'" using u1(3) u'(3) by simp
  ultimately show ?case by blast
qed

lemma find_dof_idx_result:
  "\<forall>ii\<in>set iis. ii < length gids \<Longrightarrow>
   find_dof_idx gids d iis = Inr (map_option int (List.find (\<lambda>ii. d = gids ! ii) iis))"
  by (induction iis) simp_all

lemma find_upt_Some:
  "List.find P [0..<n] = Some k \<longleftrightarrow> k < n \<and> P k \<and> (\<forall>j<k. \<not> P j)"
  by (auto simp: find_Some_iff)

lemma find_upt_None: "List.find P [0..<n] = None \<longleftrightarrow> (\<forall>j<n. \<not> P j)"
  by (auto simp: find_None_iff)

lemma find_index_in_set:
  "x \<in> set u \<Longrightarrow> 0 \<le> find_index u x \<and> find_index u x < int (length u)
     \<and> u ! nat (find_index u x) = x"
proof (induction u)
  case Nil then show ?case by simp
next
  case (Cons y u)
  show ?case
  proof (cases "y = x")
    case True then show ?thesis by simp
  next
    case False
    with Cons have ih: "0 \<le> find_index u x" "find_index u x < int (length u)"
      "u ! nat (find_index u x) = x" by simp_all
    then show ?thesis using False by (simp add: nat_add_distrib)
  qed
qed

lemma resolve_idx_result:
  "\<forall>ii\<in>set iis. ii < length src \<and> ii < length src_idx \<Longrightarrow>
   \<exists>si. resolve_idx u src iis src_idx = Inr si \<and> length si = length src_idx
       \<and> (\<forall>i<length src_idx. si ! i = (if i \<in> set iis then find_index u (src ! i) else src_idx ! i))"
proof (induction iis arbitrary: src_idx)
  case Nil then show ?case by simp
next
  case (Cons ii iis)
  let ?s1 = "src_idx[ii := find_index u (src ! ii)]"
  from Cons.prems have "\<forall>ii\<in>set iis. ii < length src \<and> ii < length ?s1" by simp
  from Cons.IH [OF this] obtain si where
    si: "resolve_idx u src iis ?s1 = Inr si" "length si = length ?s1"
        "\<forall>i<length ?s1. si ! i = (if i \<in> set iis then find_index u (src ! i) else ?s1 ! i)"
    by blast
  have "resolve_idx u src (ii # iis) src_idx = Inr si" using Cons.prems si(1) by simp
  moreover have "length si = length src_idx" using si(2) by simp
  moreover have "\<forall>i<length src_idx. si ! i
       = (if i \<in> set (ii # iis) then find_index u (src ! i) else src_idx ! i)"
    using si(3) by (auto simp: nth_list_update)
  ultimately show ?case by blast
qed

lemma resolve_segment_result:
  assumes wf: "seg_wf s" and nd: "num_dofs = int (length gids)"
      and sub: "set (m_source_dofs s) \<subseteq> set u"
  shows "(m_dof s \<in> set gids \<longrightarrow>
            (\<exists>s'. resolve_segment gids num_dofs u s = Inr s' \<and> same_contribution s s'
                  \<and> seg_wf s' \<and> seg_resolved gids u s'))
       \<and> (m_dof s \<notin> set gids \<longrightarrow> resolve_segment gids num_dofs u s = Inl RequireFailed)"
proof -
  let ?P = "\<lambda>ii. m_dof s = gids ! ii"
  have fd: "find_dof_idx gids (m_dof s) [0..<nat num_dofs]
              = Inr (map_option int (List.find ?P [0..<length gids]))"
    using find_dof_idx_result [of "[0..<length gids]" gids "m_dof s"] nd by simp
  have n: "nat (m_length s) = length (m_source_dofs s)"
          "length (m_source_idx s) = length (m_source_dofs s)"
    using wf by (auto simp: seg_wf_def)
  have "\<forall>ii\<in>set [0..<length (m_source_dofs s)].
          ii < length (m_source_dofs s) \<and> ii < length (m_source_idx s)"
    using n by simp
  from resolve_idx_result [OF this, of u] obtain si where
    si: "resolve_idx u (m_source_dofs s) [0..<length (m_source_dofs s)] (m_source_idx s) = Inr si"
        "length si = length (m_source_idx s)"
        "\<forall>i<length (m_source_idx s). si ! i = find_index u (m_source_dofs s ! i)"
    by (auto simp: n)
  have found: "resolve_segment gids num_dofs u s = Inr (s\<lparr>m_dof_idx := Some (int k), m_source_idx := si\<rparr>)"
    if "List.find ?P [0..<length gids] = Some k" for k
    using that fd si(1) n by (simp add: resolve_segment_def)
  have notfound: "resolve_segment gids num_dofs u s = Inl RequireFailed"
    if "List.find ?P [0..<length gids] = None"
    using that fd by (simp add: resolve_segment_def)
  show ?thesis
  proof (intro conjI impI)
    assume "m_dof s \<in> set gids"
    then have "\<not> (\<forall>j<length gids. \<not> ?P j)" by (auto simp: in_set_conv_nth)
    then obtain k where k: "List.find ?P [0..<length gids] = Some k"
      using find_upt_None [of ?P "length gids"] by (cases "List.find ?P [0..<length gids]") auto
    then have kp: "k < length gids" "gids ! k = m_dof s" "\<forall>j<k. gids ! j \<noteq> m_dof s"
      by (auto simp: find_upt_Some)
    let ?s' = "s\<lparr>m_dof_idx := Some (int k), m_source_idx := si\<rparr>"
    have idx: "\<forall>i<length (m_source_dofs s).
            0 \<le> si ! i \<and> si ! i < int (length u) \<and> u ! nat (si ! i) = m_source_dofs s ! i"
    proof (intro allI impI)
      fix i assume i: "i < length (m_source_dofs s)"
      then have "m_source_dofs s ! i \<in> set u" using sub by auto
      from find_index_in_set [OF this] show
        "0 \<le> si ! i \<and> si ! i < int (length u) \<and> u ! nat (si ! i) = m_source_dofs s ! i"
        using si(3) i n by simp
    qed
    have "seg_resolved gids u ?s'"
      unfolding seg_resolved_def using kp idx si(2) n by auto
    moreover have "same_contribution s ?s'" by (simp add: same_contribution_def)
    moreover have "seg_wf ?s'" using wf si(2) by (simp add: seg_wf_def)
    ultimately show "\<exists>s'. resolve_segment gids num_dofs u s = Inr s' \<and> same_contribution s s'
                  \<and> seg_wf s' \<and> seg_resolved gids u s'"
      using found [OF k] by blast
  next
    assume "m_dof s \<notin> set gids"
    then have "List.find ?P [0..<length gids] = None" by (auto simp: find_upt_None)
    then show "resolve_segment gids num_dofs u s = Inl RequireFailed" by (rule notfound)
  qed
qed

lemma resolve_all_result:
  assumes "distinct iis"
      and "\<forall>i\<in>set iis. i < length segs \<and> seg_wf (segs ! i)
                         \<and> set (m_source_dofs (segs ! i)) \<subseteq> set u"
      and "num_dofs = int (length gids)"
  shows "((\<forall>i\<in>set iis. m_dof (segs ! i) \<in> set gids) \<longrightarrow>
            (\<exists>segs'. resolve_all gids num_dofs u iis segs = Inr segs'
                \<and> length segs' = length segs
                \<and> (\<forall>i<length segs.
                      if i \<in> set iis
                      then same_contribution (segs ! i) (segs' ! i) \<and> seg_wf (segs' ! i)
                           \<and> seg_resolved gids u (segs' ! i)
                      else segs' ! i = segs ! i)))
       \<and> ((\<exists>i\<in>set iis. m_dof (segs ! i) \<notin> set gids) \<longrightarrow>
            resolve_all gids num_dofs u iis segs = Inl RequireFailed)"
  using assms
proof (induction iis arbitrary: segs)
  case Nil
  then show ?case by simp
next
  case (Cons i iis)
  from Cons.prems have i: "i < length segs" "seg_wf (segs ! i)"
      "set (m_source_dofs (segs ! i)) \<subseteq> set u" "i \<notin> set iis" "distinct iis" by simp_all
  note rs = resolve_segment_result [OF i(2) Cons.prems(3) i(3)]
  show ?case
  proof (cases "m_dof (segs ! i) \<in> set gids")
    case False
    then have "resolve_all gids num_dofs u (i # iis) segs = Inl RequireFailed"
      using rs i(1) by simp
    with False show ?thesis by auto
  next
    case True
    with rs obtain s' where s': "resolve_segment gids num_dofs u (segs ! i) = Inr s'"
        "same_contribution (segs ! i) s'" "seg_wf s'" "seg_resolved gids u s'" by blast
    let ?segs1 = "segs[i := s']"
    have step: "resolve_all gids num_dofs u (i # iis) segs
                  = resolve_all gids num_dofs u iis ?segs1"
      using i(1) s'(1) by simp
    have same: "\<forall>j\<in>set iis. ?segs1 ! j = segs ! j" using i(4) by (metis nth_list_update_neq)
    have pre: "\<forall>j\<in>set iis. j < length ?segs1 \<and> seg_wf (?segs1 ! j)
                         \<and> set (m_source_dofs (?segs1 ! j)) \<subseteq> set u"
      using Cons.prems(2) same by simp
    note ih = Cons.IH [OF i(5) pre Cons.prems(3)]
    show ?thesis
    proof (intro conjI impI)
      assume all: "\<forall>j\<in>set (i # iis). m_dof (segs ! j) \<in> set gids"
      then have "\<forall>j\<in>set iis. m_dof (?segs1 ! j) \<in> set gids" using same by simp
      with ih obtain segs' where segs':
        "resolve_all gids num_dofs u iis ?segs1 = Inr segs'" "length segs' = length ?segs1"
        "\<forall>j<length ?segs1.
             if j \<in> set iis
             then same_contribution (?segs1 ! j) (segs' ! j) \<and> seg_wf (segs' ! j)
                  \<and> seg_resolved gids u (segs' ! j)
             else segs' ! j = ?segs1 ! j" by blast
      have "\<forall>j<length segs.
              if j \<in> set (i # iis)
              then same_contribution (segs ! j) (segs' ! j) \<and> seg_wf (segs' ! j)
                   \<and> seg_resolved gids u (segs' ! j)
              else segs' ! j = segs ! j"
      proof (intro allI impI)
        fix j assume j: "j < length segs"
        show "if j \<in> set (i # iis)
              then same_contribution (segs ! j) (segs' ! j) \<and> seg_wf (segs' ! j)
                   \<and> seg_resolved gids u (segs' ! j)
              else segs' ! j = segs ! j"
        proof (cases "j = i")
          case True
          then have "segs' ! j = s'" using segs'(3) i(1) i(4) by simp
          then show ?thesis using True s' by simp
        next
          case False
          then show ?thesis using segs'(3) j by (auto simp: nth_list_update)
        qed
      qed
      then show "\<exists>segs'. resolve_all gids num_dofs u (i # iis) segs = Inr segs'
                \<and> length segs' = length segs
                \<and> (\<forall>j<length segs.
                      if j \<in> set (i # iis)
                      then same_contribution (segs ! j) (segs' ! j) \<and> seg_wf (segs' ! j)
                           \<and> seg_resolved gids u (segs' ! j)
                      else segs' ! j = segs ! j)"
        using step segs'(1,2) by auto
    next
      assume "\<exists>j\<in>set (i # iis). m_dof (segs ! j) \<notin> set gids"
      with True have "\<exists>j\<in>set iis. m_dof (?segs1 ! j) \<notin> set gids" using same by auto
      with ih step show "resolve_all gids num_dofs u (i # iis) segs = Inl RequireFailed"
        by simp
    qed
  qed
qed

lemma UN_nth_upt: "(\<Union>i\<in>set [0..<length xs]. f (xs ! i)) = (\<Union>s\<in>set xs. f s)"
proof -
  have "(\<Union>s\<in>set xs. f s) = (\<Union>s\<in>(!) xs ` {0..<length xs}. f s)" by (simp add: nth_image)
  also have "\<dots> = (\<Union>i\<in>{0..<length xs}. f (xs ! i))" by blast
  finally show ?thesis by simp
qed

lemma ball_nth_upt: "(\<forall>i\<in>set [0..<length xs]. P (xs ! i)) \<longleftrightarrow> (\<forall>s\<in>set xs. P s)"
  by (auto simp: all_set_conv_all_nth)

lemma set_unique_source_dofs_result:
  assumes ns: "m_num_segments m = int (length (m_map_segments m))"
      and nd: "m_num_dofs m = int (length (m_dofs_gids m))"
      and wf: "\<forall>s\<in>set (m_map_segments m). seg_wf s"
  shows "((\<forall>s\<in>set (m_map_segments m). m_dof s \<in> set (m_dofs_gids m)) \<longrightarrow>
           (\<exists>m'. set_unique_source_dofs m = Inr m'
              \<and> m_unique_set m'
              \<and> sorted (m_unique_dofs m') \<and> distinct (m_unique_dofs m')
              \<and> set (m_unique_dofs m') = (\<Union>s\<in>set (m_map_segments m). set (m_source_dofs s))
              \<and> m_dofs_gids m' = m_dofs_gids m \<and> m_num_dofs m' = m_num_dofs m
              \<and> m_dofs_set m' = m_dofs_set m \<and> m_num_segments m' = m_num_segments m
              \<and> length (m_map_segments m') = length (m_map_segments m)
              \<and> (\<forall>i<length (m_map_segments m).
                    same_contribution (m_map_segments m ! i) (m_map_segments m' ! i)
                  \<and> seg_wf (m_map_segments m' ! i)
                  \<and> seg_resolved (m_dofs_gids m) (m_unique_dofs m') (m_map_segments m' ! i))))
       \<and> ((\<exists>s\<in>set (m_map_segments m). m_dof s \<notin> set (m_dofs_gids m)) \<longrightarrow>
            set_unique_source_dofs m = Inl RequireFailed)"
proof -
  let ?segs = "m_map_segments m"
  let ?gids = "m_dofs_gids m"
  let ?iis = "[0..<length ?segs]"
  have "\<forall>i\<in>set ?iis. i < length ?segs \<and> seg_wf (?segs ! i)" using wf by simp
  from collect_all_result [OF this, of "[]"] obtain pushed where
    pushed: "collect_all ?segs ?iis [] = Inr pushed"
            "set pushed = (\<Union>i\<in>set ?iis. set (m_source_dofs (?segs ! i)))"
            "distinct pushed" by auto
  have un: "(\<Union>i\<in>set ?iis. set (m_source_dofs (?segs ! i)))
              = (\<Union>s\<in>set ?segs. set (m_source_dofs s))"
    by (rule UN_nth_upt)
  let ?u = "sort pushed"
  have u: "sorted ?u" "distinct ?u" "set ?u = (\<Union>s\<in>set ?segs. set (m_source_dofs s))"
    using pushed un by simp_all
  have unfold: "set_unique_source_dofs m
      = bind_res (resolve_all ?gids (m_num_dofs m) ?u ?iis ?segs)
          (\<lambda>segs. Inr (m\<lparr>m_unique_dofs := ?u, m_unique_set := True, m_map_segments := segs\<rparr>))"
    using pushed(1) ns by (simp add: set_unique_source_dofs_def Let_def)
  have pre: "\<forall>i\<in>set ?iis. i < length ?segs \<and> seg_wf (?segs ! i)
                \<and> set (m_source_dofs (?segs ! i)) \<subseteq> set ?u"
    using wf u(3) by auto
  have d: "distinct ?iis" by simp
  note ra = resolve_all_result [OF d pre nd]
  have mem: "(\<forall>i\<in>set ?iis. m_dof (?segs ! i) \<in> set ?gids)
               \<longleftrightarrow> (\<forall>s\<in>set ?segs. m_dof s \<in> set ?gids)"
    by (rule ball_nth_upt)
  show ?thesis
  proof (intro conjI impI)
    assume "\<forall>s\<in>set ?segs. m_dof s \<in> set ?gids"
    with ra mem obtain segs' where segs':
      "resolve_all ?gids (m_num_dofs m) ?u ?iis ?segs = Inr segs'"
      "length segs' = length ?segs"
      "\<forall>i<length ?segs. same_contribution (?segs ! i) (segs' ! i) \<and> seg_wf (segs' ! i)
                           \<and> seg_resolved ?gids ?u (segs' ! i)"
      by auto
    let ?m' = "m\<lparr>m_unique_dofs := ?u, m_unique_set := True, m_map_segments := segs'\<rparr>"
    have "set_unique_source_dofs m = Inr ?m'" using unfold segs'(1) by simp
    then show "\<exists>m'. set_unique_source_dofs m = Inr m'
              \<and> m_unique_set m'
              \<and> sorted (m_unique_dofs m') \<and> distinct (m_unique_dofs m')
              \<and> set (m_unique_dofs m') = (\<Union>s\<in>set (m_map_segments m). set (m_source_dofs s))
              \<and> m_dofs_gids m' = m_dofs_gids m \<and> m_num_dofs m' = m_num_dofs m
              \<and> m_dofs_set m' = m_dofs_set m \<and> m_num_segments m' = m_num_segments m
              \<and> length (m_map_segments m') = length (m_map_segments m)
              \<and> (\<forall>i<length (m_map_segments m).
                    same_contribution (m_map_segments m ! i) (m_map_segments m' ! i)
                  \<and> seg_wf (m_map_segments m' ! i)
                  \<and> seg_resolved (m_dofs_gids m) (m_unique_dofs m') (m_map_segments m' ! i))"
      using u segs'(2,3) by simp
  next
    assume "\<exists>s\<in>set ?segs. m_dof s \<notin> set ?gids"
    with ra mem have "resolve_all ?gids (m_num_dofs m) ?u ?iis ?segs = Inl RequireFailed"
      by blast
    then show "set_unique_source_dofs m = Inl RequireFailed" using unfold by simp
  qed
qed

lemmas example_defs = example_seg_a_def example_seg_b_def example_map_def example_map_merged_def
  example_map_unresolved_def example_map_holding_def example_map_holding_1_def
  example_map_holding_2_def

lemma example_add_a:
  "add_remap_segment example_seg_a example_map_holding = Inr example_map_holding_1"
  unfolding example_defs by code_simp

lemma example_add_b:
  "add_remap_segment example_seg_b example_map_holding_1 = Inr example_map_holding_2"
  unfolding example_defs by code_simp

lemma example_resolve:
  "set_unique_source_dofs example_map_unresolved = Inr example_map_merged"
  unfolding example_defs by code_simp

text \<open>
  Claim C5. For a map whose counts agree with its vectors and whose segments are as
  their constructors leave them: \<open>set_unique_source_dofs\<close> aborts exactly when some
  segment targets a DOF that is not in the local DOF list, and returns otherwise. When
  it returns, the unique list is sorted and duplicate-free and holds exactly the source
  DOFs of the segments; every segment keeps its target DOF, source DOFs and weights;
  its \<open>dof_idx\<close> is the position of its target DOF in the local DOF list, and every
  \<open>source_idx\<close> entry is a valid index into the unique list at which the segment's own
  source DOF stands.
\<close>

theorem set_unique_source_dofs_resolves:
  assumes "m_num_segments m = int (length (m_map_segments m))"
      and "m_num_dofs m = int (length (m_dofs_gids m))"
      and "\<forall>s\<in>set (m_map_segments m). seg_wf s"
  shows "(set_unique_source_dofs m = Inl RequireFailed
            \<longleftrightarrow> (\<exists>s\<in>set (m_map_segments m). m_dof s \<notin> set (m_dofs_gids m)))
       \<and> ((\<exists>m'. set_unique_source_dofs m = Inr m')
            \<longleftrightarrow> (\<forall>s\<in>set (m_map_segments m). m_dof s \<in> set (m_dofs_gids m)))
       \<and> (\<forall>m'. set_unique_source_dofs m = Inr m' \<longrightarrow>
              sorted (m_unique_dofs m') \<and> distinct (m_unique_dofs m')
            \<and> set (m_unique_dofs m') = (\<Union>s\<in>set (m_map_segments m). set (m_source_dofs s))
            \<and> m_dofs_gids m' = m_dofs_gids m
            \<and> length (m_map_segments m') = length (m_map_segments m)
            \<and> (\<forall>i<length (m_map_segments m').
                  same_contribution (m_map_segments m ! i) (m_map_segments m' ! i)
                \<and> seg_resolved (m_dofs_gids m') (m_unique_dofs m') (m_map_segments m' ! i)))"
proof -
  note r = set_unique_source_dofs_result [OF assms]
  show ?thesis
  proof (cases "\<forall>s\<in>set (m_map_segments m). m_dof s \<in> set (m_dofs_gids m)")
    case True
    with r obtain m' where m': "set_unique_source_dofs m = Inr m'"
        "sorted (m_unique_dofs m')" "distinct (m_unique_dofs m')"
        "set (m_unique_dofs m') = (\<Union>s\<in>set (m_map_segments m). set (m_source_dofs s))"
        "m_dofs_gids m' = m_dofs_gids m"
        "length (m_map_segments m') = length (m_map_segments m)"
        "\<forall>i<length (m_map_segments m).
             same_contribution (m_map_segments m ! i) (m_map_segments m' ! i)
           \<and> seg_wf (m_map_segments m' ! i)
           \<and> seg_resolved (m_dofs_gids m) (m_unique_dofs m') (m_map_segments m' ! i)"
      by blast
    with True show ?thesis by auto
  next
    case False
    with r have "set_unique_source_dofs m = Inl RequireFailed" by blast
    with False show ?thesis by auto
  qed
qed


theorem set_unique_source_dofs_resolves_witness:
  "m_num_segments example_map_unresolved = int (length (m_map_segments example_map_unresolved))
   \<and> m_num_dofs example_map_unresolved = int (length (m_dofs_gids example_map_unresolved))
   \<and> list_all seg_wf (m_map_segments example_map_unresolved)
   \<and> set_unique_source_dofs example_map_unresolved = Inr example_map_merged
   \<and> sorted (m_unique_dofs example_map_merged) \<and> distinct (m_unique_dofs example_map_merged)
   \<and> list_all (seg_resolved (m_dofs_gids example_map_merged) (m_unique_dofs example_map_merged))
         (m_map_segments example_map_merged)"
proof -
  have pre:
    "m_num_segments example_map_unresolved = int (length (m_map_segments example_map_unresolved))"
    "m_num_dofs example_map_unresolved = int (length (m_dofs_gids example_map_unresolved))"
    "\<forall>s\<in>set (m_map_segments example_map_unresolved). seg_wf s"
    by (simp_all add: example_defs seg_wf_def)
  from set_unique_source_dofs_resolves [OF pre] example_resolve
  have "sorted (m_unique_dofs example_map_merged) \<and> distinct (m_unique_dofs example_map_merged)
   \<and> (\<forall>i<length (m_map_segments example_map_merged).
          seg_resolved (m_dofs_gids example_map_merged) (m_unique_dofs example_map_merged)
            (m_map_segments example_map_merged ! i))"
    by blast
  with pre example_resolve show ?thesis by (simp add: list_all_length list_all_iff)
qed

section \<open>Properties of GSMap::add\_remap\_segment\<close>

lemma find_match_result:
  "\<forall>i\<in>set iis. i < length segs \<Longrightarrow>
   find_match segs d iis
     = Inr (case List.find (\<lambda>i. m_dof (segs ! i) = d) iis of None \<Rightarrow> - 999 | Some i \<Rightarrow> int i)"
  by (induction iis) simp_all

lemma find_match_none:
  assumes "\<forall>s\<in>set segs. m_dof s \<noteq> d"
  shows "find_match segs d [0..<length segs] = Inr (- 999)"
proof -
  have "List.find (\<lambda>i. m_dof (segs ! i) = d) [0..<length segs] = None"
    using assms by (simp add: find_upt_None)
  then show ?thesis using find_match_result [of "[0..<length segs]" segs d] by simp
qed

lemma find_match_some:
  assumes "distinct (map m_dof segs)" "j < length segs" "m_dof (segs ! j) = d"
  shows "find_match segs d [0..<length segs] = Inr (int j)"
proof -
  have "\<forall>i<j. m_dof (segs ! i) \<noteq> d"
  proof (intro allI impI)
    fix i assume "i < j"
    then have "i < length (map m_dof segs)" "j < length (map m_dof segs)" "i \<noteq> j"
      using assms(2) by simp_all
    then have "map m_dof segs ! i \<noteq> map m_dof segs ! j"
      using assms(1) by (simp only: nth_eq_iff_index_eq) simp
    then show "m_dof (segs ! i) \<noteq> d" using assms(2,3) \<open>i < j\<close> by simp
  qed
  then have "List.find (\<lambda>i. m_dof (segs ! i) = d) [0..<length segs] = Some j"
    using assms by (simp add: find_upt_Some)
  then show ?thesis using find_match_result [of "[0..<length segs]" segs d] by simp
qed

lemma view_set_Inr_add:
  "i + off < length v \<Longrightarrow> view_set v (int i + int off) x = Inr (v[i + off := x])"
  by (simp add: view_set_def nat_add_distrib)

lemma copy_loop_result:
  "\<forall>ii\<in>set iis. ii < length src \<and> ii + off < length dst \<Longrightarrow>
   \<exists>r. copy_loop src (int off) iis dst = Inr r \<and> length r = length dst
      \<and> (\<forall>j<length dst. r ! j = (if off \<le> j \<and> j - off \<in> set iis then src ! (j - off) else dst ! j))"
proof (induction iis arbitrary: dst)
  case Nil then show ?case by simp
next
  case (Cons ii iis)
  let ?d1 = "dst[ii + off := src ! ii]"
  from Cons.prems have "\<forall>ii\<in>set iis. ii < length src \<and> ii + off < length ?d1" by simp
  from Cons.IH [OF this] obtain r where
    r: "copy_loop src (int off) iis ?d1 = Inr r" "length r = length ?d1"
       "\<forall>j<length ?d1. r ! j = (if off \<le> j \<and> j - off \<in> set iis then src ! (j - off) else ?d1 ! j)"
    by blast
  have "copy_loop src (int off) (ii # iis) dst = Inr r"
    using Cons.prems r(1) by (simp add: view_set_Inr_add)
  moreover have "length r = length dst" using r(2) by simp
  moreover have "\<forall>j<length dst. r ! j
       = (if off \<le> j \<and> j - off \<in> set (ii # iis) then src ! (j - off) else dst ! j)"
  proof (intro allI impI)
    fix j assume j: "j < length dst"
    show "r ! j = (if off \<le> j \<and> j - off \<in> set (ii # iis) then src ! (j - off) else dst ! j)"
    proof (cases "j = ii + off")
      case True
      then show ?thesis using r(3) j by auto
    next
      case False
      then have "\<not> (off \<le> j \<and> j - off = ii)" by auto
      then show ?thesis using r(3) j False by (auto simp: nth_list_update)
    qed
  qed
  ultimately show ?case by blast
qed

lemma copy_two:
  assumes "length a = la" "length b = lb"
  shows "\<exists>r1 r2. copy_loop a 0 [0..<la] (replicate (la + lb) z) = Inr r1
                \<and> copy_loop b (int la) [0..<lb] r1 = Inr r2 \<and> r2 = a @ b"
proof -
  have "\<forall>ii\<in>set [0..<la]. ii < length a \<and> ii + 0 < length (replicate (la + lb) z)"
    using assms by simp
  from copy_loop_result [OF this] obtain r1 where
    r1: "copy_loop a 0 [0..<la] (replicate (la + lb) z) = Inr r1" "length r1 = la + lb"
        "\<forall>j<la + lb. r1 ! j = (if j < la then a ! j else z)"
    by auto
  have "\<forall>ii\<in>set [0..<lb]. ii < length b \<and> ii + la < length r1" using assms r1(2) by simp
  from copy_loop_result [OF this] obtain r2 where
    r2: "copy_loop b (int la) [0..<lb] r1 = Inr r2" "length r2 = la + lb"
        "\<forall>j<la + lb. r2 ! j = (if la \<le> j \<and> j - la < lb then b ! (j - la) else r1 ! j)"
    using r1(2) by auto
  have "r2 = a @ b"
  proof (rule nth_equalityI)
    show "length r2 = length (a @ b)" using r2(2) assms by simp
  next
    fix j assume "j < length r2"
    then have j: "j < la + lb" using r2(2) by simp
    show "r2 ! j = (a @ b) ! j"
    proof (cases "j < la")
      case True
      then show ?thesis using r2(3) r1(3) j assms by (simp add: nth_append)
    next
      case False
      with j have "la \<le> j" "j - la < lb" by linarith+
      then show ?thesis using r2(3) j False assms by (simp add: nth_append)
    qed
  qed
  with r1(1) r2(1) show ?thesis by blast
qed

lemma merge_segments_result:
  assumes "seg_wf a" "seg_wf b" "m_length b + m_length a \<le> INT_MAX"
  shows "merge_segments a b
           = Inr \<lparr>m_dof = m_dof b, m_length = m_length b + m_length a,
                  m_source_dofs = m_source_dofs a @ m_source_dofs b,
                  m_source_idx = m_source_idx a @ m_source_idx b,
                  m_weights = m_weights a @ m_weights b,
                  m_dof_idx = None\<rparr>"
proof -
  obtain la lb where l: "m_length a = int la" "m_length b = int lb"
      "length (m_source_dofs a) = la" "length (m_source_idx a) = la" "length (m_weights a) = la"
      "length (m_source_dofs b) = lb" "length (m_source_idx b) = lb" "length (m_weights b) = lb"
    using assms(1,2) by (auto simp: seg_wf_def)
  have ia: "int_add (m_length b) (m_length a) = Inr (int (la + lb))"
    using assms(3) l by (simp add: int_add_def INT_MAX_def add.commute)
  from copy_two [OF l(3) l(6), of "0::int"] obtain d1 d2 where
    d: "copy_loop (m_source_dofs a) 0 [0..<la] (replicate (la + lb) 0) = Inr d1"
       "copy_loop (m_source_dofs b) (int la) [0..<lb] d1 = Inr d2"
       "d2 = m_source_dofs a @ m_source_dofs b" by blast
  from copy_two [OF l(4) l(7), of "0::int"] obtain i1 i2 where
    i: "copy_loop (m_source_idx a) 0 [0..<la] (replicate (la + lb) 0) = Inr i1"
       "copy_loop (m_source_idx b) (int la) [0..<lb] i1 = Inr i2"
       "i2 = m_source_idx a @ m_source_idx b" by blast
  from copy_two [OF l(5) l(8), of "0::real"] obtain w1 w2 where
    w: "copy_loop (m_weights a) 0 [0..<la] (replicate (la + lb) 0) = Inr w1"
       "copy_loop (m_weights b) (int la) [0..<lb] w1 = Inr w2"
       "w2 = m_weights a @ m_weights b" by blast
  show ?thesis
    unfolding merge_segments_def ia
    using d i w l(1,2)
    by (simp add: Let_def GSSegment_new_def del: of_nat_add)
qed

lemma same_contribution_iff:
  "same_contribution s s' \<longleftrightarrow> contribution_of s' = contribution_of s"
  by (auto simp: same_contribution_def contribution_of_def)

lemma fst_contribution_of [simp]: "fst (contribution_of s) = m_dof s"
  by (simp add: contribution_of_def)

lemma map_fst_contribution_of: "map fst (map contribution_of segs) = map m_dof segs"
  by simp

lemma map_if_update:
  assumes "distinct (map fst cs)" "j < length cs" "fst (cs ! j) = d"
  shows "map (\<lambda>old. if fst old = d then f old else old) cs = cs[j := f (cs ! j)]"
proof (rule nth_equalityI)
  show "length (map (\<lambda>old. if fst old = d then f old else old) cs) = length (cs[j := f (cs ! j)])"
    by simp
next
  fix i assume "i < length (map (\<lambda>old. if fst old = d then f old else old) cs)"
  then have i: "i < length cs" by simp
  show "map (\<lambda>old. if fst old = d then f old else old) cs ! i = cs[j := f (cs ! j)] ! i"
  proof (cases "i = j")
    case True
    then show ?thesis using assms i by simp
  next
    case False
    then have "map fst cs ! i \<noteq> map fst cs ! j"
      using assms(1,2) i by (simp only: nth_eq_iff_index_eq length_map) simp
    then have "fst (cs ! i) \<noteq> d" using assms i by simp
    then show ?thesis using False i by simp
  qed
qed

lemma add_core:
  assumes inv: "GSMap_inv m" and wf: "seg_wf seg"
      and ov: "\<forall>s\<in>set (m_map_segments m). m_dof s = m_dof seg
                 \<longrightarrow> m_length seg + m_length s \<le> INT_MAX"
  shows "\<exists>segs1.
           add_remap_segment seg m
             = (if m_unique_set m
                then set_unique_source_dofs
                       (m\<lparr>m_map_segments := segs1, m_num_segments := int (length segs1)\<rparr>)
                else Inr (m\<lparr>m_map_segments := segs1, m_num_segments := int (length segs1)\<rparr>))
         \<and> map contribution_of segs1 = add_contribution (contribution_of seg) (contributions m)
         \<and> (\<forall>s\<in>set segs1. seg_wf s)
         \<and> distinct (map m_dof segs1)
         \<and> set (map m_dof segs1) = insert (m_dof seg) (set (map m_dof (m_map_segments m)))"
proof -
  let ?segs = "m_map_segments m"
  let ?d = "m_dof seg"
  from inv have ns: "m_num_segments m = int (length ?segs)"
    and wfs: "\<forall>s\<in>set ?segs. seg_wf s" and dist: "distinct (map m_dof ?segs)"
    by (simp_all add: GSMap_inv_def)
  show ?thesis
  proof (cases "?d \<in> m_dof ` set ?segs")
    case False
    then have nomatch: "\<forall>s\<in>set ?segs. m_dof s \<noteq> ?d" by (metis imageI)
    let ?segs1 = "?segs @ [seg]"
    have "add_remap_segment seg m
            = (if m_unique_set m
               then set_unique_source_dofs
                      (m\<lparr>m_map_segments := ?segs1, m_num_segments := int (length ?segs1)\<rparr>)
               else Inr (m\<lparr>m_map_segments := ?segs1, m_num_segments := int (length ?segs1)\<rparr>))"
      using find_match_none [OF nomatch] ns by (simp add: add_remap_segment_def Let_def)
    moreover have "map contribution_of ?segs1
                     = add_contribution (contribution_of seg) (contributions m)"
      using False by (simp add: add_contribution_def contributions_def image_image)
    moreover have "\<forall>s\<in>set ?segs1. seg_wf s" using wfs wf by simp
    moreover have "distinct (map m_dof ?segs1)" using dist False by simp
    moreover have "set (map m_dof ?segs1) = insert ?d (set (map m_dof ?segs))" by simp
    ultimately show ?thesis by blast
  next
    case True
    then obtain j where j: "j < length ?segs" "m_dof (?segs ! j) = ?d"
      by (auto simp: in_set_conv_nth)
    let ?a = "?segs ! j"
    have wfa: "seg_wf ?a" using wfs j(1) by simp
    have ova: "m_length seg + m_length ?a \<le> INT_MAX" using ov j by simp
    let ?new = "\<lparr>m_dof = ?d, m_length = m_length seg + m_length ?a,
                  m_source_dofs = m_source_dofs ?a @ m_source_dofs seg,
                  m_source_idx = m_source_idx ?a @ m_source_idx seg,
                  m_weights = m_weights ?a @ m_weights seg,
                  m_dof_idx = None\<rparr>"
    let ?segs1 = "?segs[j := ?new]"
    have mg: "merge_segments ?a seg = Inr ?new" using merge_segments_result [OF wfa wf ova] .
    have "add_remap_segment seg m
            = (if m_unique_set m
               then set_unique_source_dofs
                      (m\<lparr>m_map_segments := ?segs1, m_num_segments := int (length ?segs1)\<rparr>)
               else Inr (m\<lparr>m_map_segments := ?segs1, m_num_segments := int (length ?segs1)\<rparr>))"
      using find_match_some [OF dist j] ns j(1) mg
      by (simp add: add_remap_segment_def Let_def)
    moreover have "map contribution_of ?segs1
                     = add_contribution (contribution_of seg) (contributions m)"
    proof -
      let ?cs = "map contribution_of ?segs"
      have "map fst ?cs = map m_dof ?segs" by (simp add: comp_def)
      then have dcs: "distinct (map fst ?cs)" using dist by (simp only:)
      have "add_contribution (contribution_of seg) (contributions m)
              = map (\<lambda>old. if fst old = ?d then merge_contribution old (contribution_of seg) else old) ?cs"
        using True by (simp add: add_contribution_def contributions_def image_image)
      also have "\<dots> = ?cs[j := merge_contribution (?cs ! j) (contribution_of seg)]"
        using dcs j by (intro map_if_update) simp_all
      also have "\<dots> = map contribution_of ?segs1"
        using j(1) by (simp add: map_update contribution_of_def)
      finally show ?thesis by simp
    qed
    moreover have "\<forall>s\<in>set ?segs1. seg_wf s"
    proof -
      have "seg_wf ?new" using wfa wf by (auto simp: seg_wf_def)
      then show ?thesis using wfs by (auto dest!: set_update_subset_insert [THEN subsetD])
    qed
    moreover have md: "map m_dof ?segs1 = map m_dof ?segs"
      using j by (simp add: map_update) (metis length_map list_update_id nth_map)
    moreover have "distinct (map m_dof ?segs1)" using dist md by simp
    moreover have "set (map m_dof ?segs1) = insert ?d (set (map m_dof ?segs))"
      using md True by auto
    ultimately show ?thesis by blast
  qed
qed

lemma contributions_dofs: "map fst (contributions m) = map m_dof (m_map_segments m)"
  by (simp add: contributions_def comp_def)

lemma contributions_sources:
  "(\<Union>s\<in>set (m_map_segments m). set (m_source_dofs s))
     = (\<Union>c\<in>set (contributions m). set (fst (snd (snd c))))"
  by (simp add: contributions_def contribution_of_def)

lemma add_remap_segment_step:
  assumes inv: "GSMap_inv m" and wf: "seg_wf seg"
      and ov: "\<forall>s\<in>set (m_map_segments m). m_dof s = m_dof seg
                 \<longrightarrow> m_length seg + m_length s \<le> INT_MAX"
      and own: "m_unique_set m \<longrightarrow> m_dof seg \<in> set (m_dofs_gids m)"
  shows "\<exists>m'. add_remap_segment seg m = Inr m' \<and> GSMap_inv m'
            \<and> m_unique_set m' = m_unique_set m
            \<and> m_dofs_gids m' = m_dofs_gids m \<and> m_num_dofs m' = m_num_dofs m
            \<and> contributions m' = add_contribution (contribution_of seg) (contributions m)
            \<and> (m_unique_set m \<longrightarrow>
                  sorted (m_unique_dofs m') \<and> distinct (m_unique_dofs m')
                \<and> set (m_unique_dofs m') = (\<Union>s\<in>set (m_map_segments m'). set (m_source_dofs s))
                \<and> (\<forall>s\<in>set (m_map_segments m').
                      seg_resolved (m_dofs_gids m') (m_unique_dofs m') s))"
proof -
  from add_core [OF inv wf ov] obtain segs1 where
    core: "add_remap_segment seg m
             = (if m_unique_set m
                then set_unique_source_dofs
                       (m\<lparr>m_map_segments := segs1, m_num_segments := int (length segs1)\<rparr>)
                else Inr (m\<lparr>m_map_segments := segs1, m_num_segments := int (length segs1)\<rparr>))"
    and c1: "map contribution_of segs1 = add_contribution (contribution_of seg) (contributions m)"
    and wf1: "\<forall>s\<in>set segs1. seg_wf s"
    and d1: "distinct (map m_dof segs1)"
    and s1: "set (map m_dof segs1) = insert (m_dof seg) (set (map m_dof (m_map_segments m)))"
    by blast
  let ?m1 = "m\<lparr>m_map_segments := segs1, m_num_segments := int (length segs1)\<rparr>"
  from inv have nd: "m_num_dofs m = int (length (m_dofs_gids m))"
    and owned: "m_unique_set m \<longrightarrow> (\<forall>s\<in>set (m_map_segments m). m_dof s \<in> set (m_dofs_gids m))"
    by (simp_all add: GSMap_inv_def)
  show ?thesis
  proof (cases "m_unique_set m")
    case False
    then have "add_remap_segment seg m = Inr ?m1" using core by simp
    moreover have "GSMap_inv ?m1" using False nd wf1 d1 by (simp add: GSMap_inv_def)
    moreover have "contributions ?m1 = add_contribution (contribution_of seg) (contributions m)"
      using c1 by (simp add: contributions_def)
    ultimately show ?thesis using False by (intro exI [of _ ?m1]) simp
  next
    case True
    have all: "\<forall>s\<in>set (m_map_segments ?m1). m_dof s \<in> set (m_dofs_gids ?m1)"
    proof
      fix s assume "s \<in> set (m_map_segments ?m1)"
      then have "m_dof s \<in> set (map m_dof segs1)" by simp
      then have "m_dof s = m_dof seg \<or> m_dof s \<in> set (map m_dof (m_map_segments m))"
        by (simp only: s1) simp
      then show "m_dof s \<in> set (m_dofs_gids ?m1)" using own owned True by auto
    qed
    have p1: "m_num_segments ?m1 = int (length (m_map_segments ?m1))" by simp
    have p2: "m_num_dofs ?m1 = int (length (m_dofs_gids ?m1))" using nd by simp
    have p3: "\<forall>s\<in>set (m_map_segments ?m1). seg_wf s" using wf1 by simp
    from set_unique_source_dofs_result [OF p1 p2 p3] all obtain m' where
      m': "set_unique_source_dofs ?m1 = Inr m'" "m_unique_set m'"
          "sorted (m_unique_dofs m')" "distinct (m_unique_dofs m')"
          "set (m_unique_dofs m') = (\<Union>s\<in>set segs1. set (m_source_dofs s))"
          "m_dofs_gids m' = m_dofs_gids m" "m_num_dofs m' = m_num_dofs m"
          "m_num_segments m' = int (length segs1)"
          "length (m_map_segments m') = length segs1"
          "\<forall>i<length segs1.
               same_contribution (segs1 ! i) (m_map_segments m' ! i)
             \<and> seg_wf (m_map_segments m' ! i)
             \<and> seg_resolved (m_dofs_gids m) (m_unique_dofs m') (m_map_segments m' ! i)"
      by auto
    have ceq: "map contribution_of (m_map_segments m') = map contribution_of segs1"
      using m'(9,10) by (auto simp: list_eq_iff_nth_eq same_contribution_iff)
    then have "map fst (map contribution_of (m_map_segments m'))
                 = map fst (map contribution_of segs1)" by simp
    then have deq: "map m_dof (m_map_segments m') = map m_dof segs1" by (simp add: comp_def)
    have "map (\<lambda>c. fst (snd (snd c))) (map contribution_of (m_map_segments m'))
            = map (\<lambda>c. fst (snd (snd c))) (map contribution_of segs1)" using ceq by simp
    then have seq: "map m_source_dofs (m_map_segments m') = map m_source_dofs segs1"
      by (simp add: comp_def contribution_of_def)
    have srcs: "(\<Union>s\<in>set (m_map_segments m'). set (m_source_dofs s))
                  = (\<Union>s\<in>set segs1. set (m_source_dofs s))"
    proof -
      have "(\<Union>s\<in>set (m_map_segments m'). set (m_source_dofs s))
              = (\<Union>x\<in>set (map m_source_dofs (m_map_segments m')). set x)" by simp
      also have "\<dots> = (\<Union>x\<in>set (map m_source_dofs segs1). set x)" by (simp only: seq)
      finally show ?thesis by simp
    qed
    have wf': "\<forall>s\<in>set (m_map_segments m'). seg_wf s"
      using m'(9,10) by (auto simp: all_set_conv_all_nth)
    have res': "\<forall>s\<in>set (m_map_segments m'). seg_resolved (m_dofs_gids m') (m_unique_dofs m') s"
      using m'(6,9,10) by (auto simp: all_set_conv_all_nth)
    have own': "\<forall>s\<in>set (m_map_segments m'). m_dof s \<in> set (m_dofs_gids m')"
    proof
      fix s assume "s \<in> set (m_map_segments m')"
      then have "m_dof s \<in> set (map m_dof (m_map_segments m'))" by simp
      then have "m_dof s \<in> set (map m_dof segs1)" by (simp only: deq)
      then obtain t where "t \<in> set segs1" "m_dof t = m_dof s" by auto
      then show "m_dof s \<in> set (m_dofs_gids m')" using all m'(6) by auto
    qed
    have "GSMap_inv m'"
      using m'(7,8,9,6) nd wf' d1 deq own' by (simp add: GSMap_inv_def)
    moreover have "add_remap_segment seg m = Inr m'" using core True m'(1) by simp
    moreover have "contributions m' = add_contribution (contribution_of seg) (contributions m)"
      using ceq c1 by (simp add: contributions_def)
    ultimately show ?thesis using True m'(2,3,4,5,6,7) srcs res'
      by (intro exI [of _ m']) simp
  qed
qed

lemma add_contribution_fresh:
  "fst c \<notin> fst ` set cs \<Longrightarrow> add_contribution c cs = cs @ [c]"
  by (simp add: add_contribution_def)

lemma add_contribution_last:
  assumes "d \<notin> fst ` set cs" "fst c' = d"
  shows "add_contribution c' (cs @ [(d, l, src, w)])
           = cs @ [merge_contribution (d, l, src, w) c']"
proof -
  have "map (\<lambda>old. if fst old = fst c' then merge_contribution old c' else old) cs = cs"
    using assms by (intro map_idI) (auto simp: image_iff)
  then show ?thesis using assms by (simp add: add_contribution_def)
qed

lemma segment_of_contribution:
  assumes "contributions m = cs" "s \<in> set (m_map_segments m)"
  shows "contribution_of s \<in> set cs"
  using assms by (auto simp: contributions_def)

text \<open>
  Claim C4, as amended. Let a map hold no segment for a target DOF, and let two
  segments for that DOF, each with views of its declared length and with a combined
  length within \<open>int\<close>, be added one after the other; when the unique source DOFs are
  already set, let the DOF be a local one. Then both calls return. The first appends
  the segment as a new one. After the second the map holds exactly one segment for the
  DOF; its length is the sum of the two lengths, and its source DOFs and weights are
  those of the first segment followed by those of the second; the other segments keep
  their contributions. The unique source DOFs stay set or unset as they were, and when
  set they are recomputed: sorted, duplicate-free, exactly the source DOFs of the
  segments now held, with every segment resolved against them.
\<close>

theorem add_remap_segment_twice_same_dof:
  assumes inv: "GSMap_inv m" and wf1: "seg_wf s1" and wf2: "seg_wf s2"
      and same: "m_dof s2 = m_dof s1"
      and fresh: "\<forall>s\<in>set (m_map_segments m). m_dof s \<noteq> m_dof s1"
      and ov: "m_length s1 + m_length s2 \<le> INT_MAX"
      and own: "m_unique_set m \<longrightarrow> m_dof s1 \<in> set (m_dofs_gids m)"
  shows "\<exists>m1 m2. add_remap_segment s1 m = Inr m1 \<and> add_remap_segment s2 m1 = Inr m2
      \<and> contributions m1 = contributions m @ [contribution_of s1]
      \<and> contributions m2 = contributions m @
            [(m_dof s1, m_length s1 + m_length s2,
              m_source_dofs s1 @ m_source_dofs s2, m_weights s1 @ m_weights s2)]
      \<and> length (filter (\<lambda>s. m_dof s = m_dof s1) (m_map_segments m2)) = 1
      \<and> (\<forall>s\<in>set (m_map_segments m2). m_dof s = m_dof s1 \<longrightarrow>
            m_length s = m_length s1 + m_length s2
          \<and> m_source_dofs s = m_source_dofs s1 @ m_source_dofs s2
          \<and> m_weights s = m_weights s1 @ m_weights s2)
      \<and> m_unique_set m2 = m_unique_set m
      \<and> (m_unique_set m \<longrightarrow>
            sorted (m_unique_dofs m2) \<and> distinct (m_unique_dofs m2)
          \<and> set (m_unique_dofs m2) = (\<Union>s\<in>set (m_map_segments m2). set (m_source_dofs s))
          \<and> (\<forall>s\<in>set (m_map_segments m2).
                seg_resolved (m_dofs_gids m2) (m_unique_dofs m2) s))"
proof -
  let ?d = "m_dof s1"
  let ?cs = "contributions m"
  have notin: "?d \<notin> fst ` set ?cs"
    using fresh by (auto simp: contributions_def)
  have ov1: "\<forall>s\<in>set (m_map_segments m). m_dof s = m_dof s1
               \<longrightarrow> m_length s1 + m_length s \<le> INT_MAX"
    using fresh by simp
  from add_remap_segment_step [OF inv wf1 ov1 own] obtain m1 where
    m1: "add_remap_segment s1 m = Inr m1" "GSMap_inv m1" "m_unique_set m1 = m_unique_set m"
        "m_dofs_gids m1 = m_dofs_gids m"
        "contributions m1 = add_contribution (contribution_of s1) ?cs"
    by blast
  have c1: "contributions m1 = ?cs @ [contribution_of s1]"
    using m1(5) notin by (simp add: add_contribution_fresh)
  have ov2: "\<forall>s\<in>set (m_map_segments m1). m_dof s = m_dof s2
               \<longrightarrow> m_length s2 + m_length s \<le> INT_MAX"
  proof (intro ballI impI)
    fix s assume s: "s \<in> set (m_map_segments m1)" "m_dof s = m_dof s2"
    from segment_of_contribution [OF c1 s(1)]
    have "contribution_of s \<in> set ?cs \<or> contribution_of s = contribution_of s1" by auto
    moreover have "contribution_of s \<notin> set ?cs"
      using notin s(2) same by (metis fst_contribution_of imageI)
    ultimately have "m_length s = m_length s1" by (simp add: contribution_of_def)
    then show "m_length s2 + m_length s \<le> INT_MAX" using ov by simp
  qed
  have own2: "m_unique_set m1 \<longrightarrow> m_dof s2 \<in> set (m_dofs_gids m1)"
    using own m1(3,4) same by simp
  from add_remap_segment_step [OF m1(2) wf2 ov2 own2] obtain m2 where
    m2: "add_remap_segment s2 m1 = Inr m2" "m_unique_set m2 = m_unique_set m1"
        "contributions m2 = add_contribution (contribution_of s2) (contributions m1)"
        "m_unique_set m1 \<longrightarrow>
            sorted (m_unique_dofs m2) \<and> distinct (m_unique_dofs m2)
          \<and> set (m_unique_dofs m2) = (\<Union>s\<in>set (m_map_segments m2). set (m_source_dofs s))
          \<and> (\<forall>s\<in>set (m_map_segments m2).
                seg_resolved (m_dofs_gids m2) (m_unique_dofs m2) s)"
    by blast
  let ?merged = "(?d, m_length s1 + m_length s2,
                  m_source_dofs s1 @ m_source_dofs s2, m_weights s1 @ m_weights s2)"
  have c2: "contributions m2 = ?cs @ [?merged]"
  proof -
    have "contributions m2
            = add_contribution (contribution_of s2)
                (?cs @ [(?d, m_length s1, m_source_dofs s1, m_weights s1)])"
      using m2(3) c1 by (simp add: contribution_of_def)
    also have "\<dots> = ?cs @ [merge_contribution (?d, m_length s1, m_source_dofs s1, m_weights s1)
                               (contribution_of s2)]"
      using notin same by (intro add_contribution_last) simp_all
    also have "\<dots> = ?cs @ [?merged]"
      using same by (simp add: contribution_of_def add.commute)
    finally show ?thesis .
  qed
  have dofs2: "map m_dof (m_map_segments m2) = map fst ?cs @ [?d]"
    using c2 contributions_dofs [of m2] by simp
  have one: "length (filter (\<lambda>s. m_dof s = ?d) (m_map_segments m2)) = 1"
  proof -
    have "length (filter (\<lambda>s. m_dof s = ?d) (m_map_segments m2))
            = length (filter (\<lambda>x. x = ?d) (map m_dof (m_map_segments m2)))"
      by (simp add: filter_map comp_def)
    also have "\<dots> = length (filter (\<lambda>x. x = ?d) (map fst ?cs)) + 1"
      by (simp only: dofs2) simp
    also have "filter (\<lambda>x. x = ?d) (map fst ?cs) = []"
      using notin by (simp add: filter_empty_conv) (metis imageI)
    finally show ?thesis by simp
  qed
  have the_seg: "\<forall>s\<in>set (m_map_segments m2). m_dof s = ?d \<longrightarrow>
            m_length s = m_length s1 + m_length s2
          \<and> m_source_dofs s = m_source_dofs s1 @ m_source_dofs s2
          \<and> m_weights s = m_weights s1 @ m_weights s2"
  proof (intro ballI impI)
    fix s assume s: "s \<in> set (m_map_segments m2)" "m_dof s = ?d"
    from segment_of_contribution [OF c2 s(1)]
    have "contribution_of s \<in> set ?cs \<or> contribution_of s = ?merged" by auto
    moreover have "contribution_of s \<notin> set ?cs"
      using notin s(2) by (metis fst_contribution_of imageI)
    ultimately show "m_length s = m_length s1 + m_length s2
          \<and> m_source_dofs s = m_source_dofs s1 @ m_source_dofs s2
          \<and> m_weights s = m_weights s1 @ m_weights s2"
      by (simp add: contribution_of_def)
  qed
  from m1(1) m2(1) c1 c2 one the_seg m2(2) m1(3) m2(4) show ?thesis
    by (intro exI [of _ m1] exI [of _ m2]) simp
qed
text \<open>
  Claim C4 as stated, for every map, fails on a map that already holds a segment for
  the DOF: the three are merged, so the length is not the sum of the two input lengths
  and the arrays do not start with the entries of the first input.
\<close>

theorem add_remap_segment_twice_counterexample:
  "GSMap_inv example_map_holding \<and> seg_wf example_seg_a \<and> seg_wf example_seg_b
   \<and> m_dof example_seg_b = m_dof example_seg_a
   \<and> add_remap_segment example_seg_a example_map_holding = Inr example_map_holding_1
   \<and> add_remap_segment example_seg_b example_map_holding_1 = Inr example_map_holding_2
   \<and> map m_length (m_map_segments example_map_holding_2) = [4]
   \<and> m_length example_seg_a + m_length example_seg_b = 3
   \<and> map m_source_dofs (m_map_segments example_map_holding_2) = [[7, 10, 3, 7]]
   \<and> m_source_dofs example_seg_a @ m_source_dofs example_seg_b = [10, 3, 7]"
  using example_add_a example_add_b
  by (simp add: example_defs GSMap_inv_def seg_wf_def)

theorem add_remap_segment_twice_same_dof_witness:
  "GSMap_inv example_map \<and> seg_wf example_seg_a \<and> seg_wf example_seg_b
   \<and> m_dof example_seg_b = m_dof example_seg_a
   \<and> m_dof example_seg_a \<notin> set (map m_dof (m_map_segments example_map))
   \<and> m_length example_seg_a + m_length example_seg_b \<le> INT_MAX
   \<and> m_unique_set example_map \<and> m_dof example_seg_a \<in> set (m_dofs_gids example_map)
   \<and> (\<exists>m1 m2. add_remap_segment example_seg_a example_map = Inr m1
          \<and> add_remap_segment example_seg_b m1 = Inr m2
          \<and> contributions m2 = [(2, 2, [3, 8], [1 / 2, 1 / 2]),
                                 (5, 3, [10, 3, 7], [1 / 4, 1 / 4, 1 / 2])]
          \<and> sorted (m_unique_dofs m2))"
proof -
  have pre: "GSMap_inv example_map" "seg_wf example_seg_a" "seg_wf example_seg_b"
    "m_dof example_seg_b = m_dof example_seg_a"
    "\<forall>s\<in>set (m_map_segments example_map). m_dof s \<noteq> m_dof example_seg_a"
    "m_length example_seg_a + m_length example_seg_b \<le> INT_MAX"
    "m_unique_set example_map \<longrightarrow> m_dof example_seg_a \<in> set (m_dofs_gids example_map)"
    by (simp_all add: example_defs GSMap_inv_def seg_wf_def INT_MAX_def)
  have c: "contributions example_map = [(2, 2, [3, 8], [1 / 2, 1 / 2])]"
    by (simp add: contributions_def contribution_of_def example_defs)
  have u: "m_unique_set example_map" "m_dof example_seg_a \<in> set (m_dofs_gids example_map)"
    "m_dof example_seg_a \<notin> set (map m_dof (m_map_segments example_map))"
    by (simp_all add: example_defs)
  from add_remap_segment_twice_same_dof [OF pre] obtain m1 m2 where
    "add_remap_segment example_seg_a example_map = Inr m1"
    "add_remap_segment example_seg_b m1 = Inr m2"
    "contributions m2 = contributions example_map @
            [(m_dof example_seg_a, m_length example_seg_a + m_length example_seg_b,
              m_source_dofs example_seg_a @ m_source_dofs example_seg_b,
              m_weights example_seg_a @ m_weights example_seg_b)]"
    "sorted (m_unique_dofs m2)"
    using u(1) by blast
  then have "\<exists>m1 m2. add_remap_segment example_seg_a example_map = Inr m1
          \<and> add_remap_segment example_seg_b m1 = Inr m2
          \<and> contributions m2 = [(2, 2, [3, 8], [1 / 2, 1 / 2]),
                                 (5, 3, [10, 3, 7], [1 / 4, 1 / 4, 1 / 2])]
          \<and> sorted (m_unique_dofs m2)"
    by (intro exI [of _ m1] exI [of _ m2]) (simp add: c example_seg_a_def example_seg_b_def)
  with pre(1,2,3,4,6) u show ?thesis by blast
qed


section \<open>Properties of GSMap::apply\_remap\<close>

lemma reduce_segment_result:
  "\<forall>ii\<in>set iis. ii < length (m_source_idx s) \<and> ii < length (m_weights s)
        \<and> 0 \<le> m_source_idx s ! ii \<and> m_source_idx s ! ii < int (length src) \<Longrightarrow>
   reduce_segment src s iis loc
     = Inr (loc + (\<Sum>ii\<leftarrow>iis. src ! nat (m_source_idx s ! ii) * m_weights s ! ii))"
  by (induction iis arbitrary: loc) (simp_all add: view_at_def add.assoc)

lemma apply_segment_result:
  assumes "seg_wf s"
      and "\<forall>i<length (m_source_idx s). 0 \<le> m_source_idx s ! i \<and> m_source_idx s ! i < int (length src)"
  shows "apply_segment src s = Inr (weighted_sum src s)"
proof -
  have n: "nat (m_length s) = length (m_weights s)" "length (m_source_idx s) = length (m_weights s)"
    using assms(1) by (auto simp: seg_wf_def)
  have "\<forall>ii\<in>set [0..<length (m_weights s)]. ii < length (m_source_idx s) \<and> ii < length (m_weights s)
        \<and> 0 \<le> m_source_idx s ! ii \<and> m_source_idx s ! ii < int (length src)"
    using assms(2) n by simp
  from reduce_segment_result [OF this, of 0] show ?thesis
    by (simp add: apply_segment_def n weighted_sum_def interv_sum_list_conv_sum_set_nat
                  atLeast0LessThan)
qed

lemma apply_loop_result:
  assumes "\<forall>i\<in>set iis. i < length segs \<and> seg_wf (segs ! i)
              \<and> (\<exists>k<length tgt. m_dof_idx (segs ! i) = Some (int k))
              \<and> (\<forall>j<length (m_source_idx (segs ! i)).
                    0 \<le> m_source_idx (segs ! i) ! j
                  \<and> m_source_idx (segs ! i) ! j < int (length src))"
      and "distinct (map (\<lambda>i. m_dof_idx (segs ! i)) iis)"
  shows "\<exists>r. apply_loop segs src iis tgt = Inr r \<and> length r = length tgt
           \<and> (\<forall>i\<in>set iis. \<exists>k<length tgt. m_dof_idx (segs ! i) = Some (int k)
                               \<and> r ! k = weighted_sum src (segs ! i))
           \<and> (\<forall>j<length tgt. (\<forall>i\<in>set iis. m_dof_idx (segs ! i) \<noteq> Some (int j))
                               \<longrightarrow> r ! j = tgt ! j)"
  using assms
proof (induction iis arbitrary: tgt)
  case Nil
  then show ?case by simp
next
  case (Cons i iis)
  from Cons.prems(1) obtain k where k: "k < length tgt" "m_dof_idx (segs ! i) = Some (int k)"
    by auto
  from Cons.prems(1) have i: "i < length segs" "seg_wf (segs ! i)"
    "\<forall>j<length (m_source_idx (segs ! i)).
        0 \<le> m_source_idx (segs ! i) ! j \<and> m_source_idx (segs ! i) ! j < int (length src)"
    by simp_all
  let ?v = "weighted_sum src (segs ! i)"
  let ?t1 = "tgt[k := ?v]"
  have step: "apply_loop segs src (i # iis) tgt = apply_loop segs src iis ?t1"
    using i(1) k apply_segment_result [OF i(2,3)]
    by (simp add: view_at_def view_set_def bind_res_def)
  have pre1: "\<forall>i\<in>set iis. i < length segs \<and> seg_wf (segs ! i)
              \<and> (\<exists>k<length ?t1. m_dof_idx (segs ! i) = Some (int k))
              \<and> (\<forall>j<length (m_source_idx (segs ! i)).
                    0 \<le> m_source_idx (segs ! i) ! j
                  \<and> m_source_idx (segs ! i) ! j < int (length src))"
    using Cons.prems(1) by simp
  have pre2: "distinct (map (\<lambda>i. m_dof_idx (segs ! i)) iis)" using Cons.prems(2) by simp
  from Cons.IH [OF pre1 pre2] obtain r where
    r: "apply_loop segs src iis ?t1 = Inr r" "length r = length ?t1"
       "\<forall>i\<in>set iis. \<exists>k<length ?t1. m_dof_idx (segs ! i) = Some (int k)
                               \<and> r ! k = weighted_sum src (segs ! i)"
       "\<forall>j<length ?t1. (\<forall>i\<in>set iis. m_dof_idx (segs ! i) \<noteq> Some (int j))
                               \<longrightarrow> r ! j = ?t1 ! j"
    by blast
  have notin: "\<forall>i'\<in>set iis. m_dof_idx (segs ! i') \<noteq> Some (int k)"
  proof
    fix i' assume "i' \<in> set iis"
    then have "m_dof_idx (segs ! i') \<in> (\<lambda>i. m_dof_idx (segs ! i)) ` set iis" by (rule imageI)
    then show "m_dof_idx (segs ! i') \<noteq> Some (int k)" using Cons.prems(2) k(2) by auto
  qed
  have "r ! k = ?v" using r(4) k(1) notin by simp
  then have head: "\<exists>k<length tgt. m_dof_idx (segs ! i) = Some (int k)
                     \<and> r ! k = weighted_sum src (segs ! i)"
    using k by blast
  have frame: "\<forall>j<length tgt. (\<forall>i\<in>set (i # iis). m_dof_idx (segs ! i) \<noteq> Some (int j))
                               \<longrightarrow> r ! j = tgt ! j"
  proof (intro allI impI)
    fix j assume j: "j < length tgt" "\<forall>i\<in>set (i # iis). m_dof_idx (segs ! i) \<noteq> Some (int j)"
    then have "j \<noteq> k" using k(2) by auto
    moreover have "r ! j = ?t1 ! j" using r(4) j by simp
    ultimately show "r ! j = tgt ! j" by simp
  qed
  from step r(1,2,3) head frame show ?case by auto
qed

lemma resolved_dof_idx_distinct:
  assumes "distinct (map m_dof segs)"
      and "\<forall>s\<in>set segs. seg_resolved gids u s"
  shows "distinct (map m_dof_idx segs)"
proof -
  from assms(1) have d: "distinct segs" "inj_on m_dof (set segs)" by (simp_all add: distinct_map)
  have "inj_on m_dof_idx (set segs)"
  proof (rule inj_onI)
    fix s t assume st: "s \<in> set segs" "t \<in> set segs" "m_dof_idx s = m_dof_idx t"
    from assms(2) st(1) obtain k where k: "m_dof_idx s = Some (int k)" "gids ! k = m_dof s"
      by (auto simp: seg_resolved_def)
    from assms(2) st(2) obtain k' where k': "m_dof_idx t = Some (int k')" "gids ! k' = m_dof t"
      by (auto simp: seg_resolved_def)
    from k k' st(3) have "m_dof s = m_dof t" by simp
    with d(2) st(1,2) show "s = t" by (simp add: inj_on_def)
  qed
  with d(1) show ?thesis by (simp add: distinct_map)
qed

text \<open>
  What holds of \<open>apply_remap\<close> whatever the mirror is, and what holds when the mirror
  is the target view itself, as \<open>create_mirror_view\<close> returns it for host-accessible
  memory. On a rank with zero local DOFs the target buffer is returned as it was. For a
  map that satisfies the invariant of its member functions, whose segments are resolved
  against its local DOFs and its unique source DOFs, with a source buffer that covers
  the unique list, a target buffer that covers the local DOFs and a mirror of the extent
  of the target: \<open>apply_remap\<close> returns; the target keeps its extent; the entry at the
  \<open>dof_idx\<close> of every segment holds that segment's weighted sum over the source; and,
  the mirror being the target view itself, every entry that is the \<open>dof_idx\<close> of no
  segment is unchanged.
\<close>

lemma apply_remap_frame:
  "(m_num_dofs m = 0 \<longrightarrow> apply_remap mirror m source_data target_data = Inr target_data)
 \<and> (GSMap_inv m
      \<and> (\<forall>s\<in>set (m_map_segments m). seg_resolved (m_dofs_gids m) (m_unique_dofs m) s)
      \<and> length (m_unique_dofs m) \<le> length source_data
      \<and> length (m_dofs_gids m) \<le> length target_data
      \<and> length (mirror target_data) = length target_data \<longrightarrow>
     (\<exists>r. apply_remap mirror m source_data target_data = Inr r
        \<and> length r = length target_data
        \<and> (\<forall>s\<in>set (m_map_segments m).
              \<exists>k<length target_data. m_dof_idx s = Some (int k)
                                   \<and> r ! k = weighted_sum source_data s)
        \<and> (mirror target_data = target_data \<longrightarrow>
             (\<forall>j<length target_data.
                (\<forall>s\<in>set (m_map_segments m). m_dof_idx s \<noteq> Some (int j))
                  \<longrightarrow> r ! j = target_data ! j))))"
proof (intro conjI impI)
  assume "m_num_dofs m = 0"
  then show "apply_remap mirror m source_data target_data = Inr target_data"
    by (simp add: apply_remap_def)
next
  let ?segs = "m_map_segments m"
  let ?iis = "[0..<length ?segs]"
  let ?h = "mirror target_data"
  assume a: "GSMap_inv m
      \<and> (\<forall>s\<in>set ?segs. seg_resolved (m_dofs_gids m) (m_unique_dofs m) s)
      \<and> length (m_unique_dofs m) \<le> length source_data
      \<and> length (m_dofs_gids m) \<le> length target_data
      \<and> length ?h = length target_data"
  then have inv: "m_num_segments m = int (length ?segs)"
      "m_num_dofs m = int (length (m_dofs_gids m))"
      "\<forall>s\<in>set ?segs. seg_wf s" "distinct (map m_dof ?segs)"
    and res: "\<forall>s\<in>set ?segs. seg_resolved (m_dofs_gids m) (m_unique_dofs m) s"
    and ls: "length (m_unique_dofs m) \<le> length source_data"
    and lt: "length (m_dofs_gids m) \<le> length target_data"
    and lh: "length ?h = length target_data"
    by (simp_all add: GSMap_inv_def)
  have pre: "\<forall>i\<in>set ?iis. i < length ?segs \<and> seg_wf (?segs ! i)
              \<and> (\<exists>k<length ?h. m_dof_idx (?segs ! i) = Some (int k))
              \<and> (\<forall>j<length (m_source_idx (?segs ! i)).
                    0 \<le> m_source_idx (?segs ! i) ! j
                  \<and> m_source_idx (?segs ! i) ! j < int (length source_data))"
  proof
    fix i assume "i \<in> set ?iis"
    then have i: "i < length ?segs" by simp
    then have mem: "?segs ! i \<in> set ?segs" by simp
    with res have r: "seg_resolved (m_dofs_gids m) (m_unique_dofs m) (?segs ! i)" by blast
    from r obtain k where "k < length (m_dofs_gids m)" "m_dof_idx (?segs ! i) = Some (int k)"
      by (auto simp: seg_resolved_def)
    then have k: "\<exists>k<length ?h. m_dof_idx (?segs ! i) = Some (int k)"
      using lt lh by (intro exI [of _ k]) simp
    from r have "\<forall>j<length (m_source_idx (?segs ! i)).
                    0 \<le> m_source_idx (?segs ! i) ! j
                  \<and> m_source_idx (?segs ! i) ! j < int (length (m_unique_dofs m))"
      by (simp add: seg_resolved_def)
    then have idx: "\<forall>j<length (m_source_idx (?segs ! i)).
                    0 \<le> m_source_idx (?segs ! i) ! j
                  \<and> m_source_idx (?segs ! i) ! j < int (length source_data)"
      using ls by fastforce
    from i mem inv(3) k idx show "i < length ?segs \<and> seg_wf (?segs ! i)
              \<and> (\<exists>k<length ?h. m_dof_idx (?segs ! i) = Some (int k))
              \<and> (\<forall>j<length (m_source_idx (?segs ! i)).
                    0 \<le> m_source_idx (?segs ! i) ! j
                  \<and> m_source_idx (?segs ! i) ! j < int (length source_data))"
      by blast
  qed
  have "map (\<lambda>i. m_dof_idx (?segs ! i)) ?iis = map m_dof_idx ?segs"
    by (rule nth_equalityI) simp_all
  then have dist: "distinct (map (\<lambda>i. m_dof_idx (?segs ! i)) ?iis)"
    using resolved_dof_idx_distinct [OF inv(4) res] by simp
  from apply_loop_result [OF pre dist] obtain r where
    r: "apply_loop ?segs source_data ?iis ?h = Inr r" "length r = length target_data"
       "\<forall>i\<in>set ?iis. \<exists>k<length target_data. m_dof_idx (?segs ! i) = Some (int k)
                               \<and> r ! k = weighted_sum source_data (?segs ! i)"
       "\<forall>j<length target_data. (\<forall>i\<in>set ?iis. m_dof_idx (?segs ! i) \<noteq> Some (int j))
                               \<longrightarrow> r ! j = ?h ! j"
    using lh by auto
  have r3: "\<forall>s\<in>set ?segs. \<exists>k<length target_data. m_dof_idx s = Some (int k)
                                   \<and> r ! k = weighted_sum source_data s"
  proof
    fix s assume "s \<in> set ?segs"
    then obtain i where i: "i < length ?segs" "?segs ! i = s" by (auto simp: in_set_conv_nth)
    then have "i \<in> set ?iis" by simp
    with r(3) have "\<exists>k<length target_data. m_dof_idx (?segs ! i) = Some (int k)
                               \<and> r ! k = weighted_sum source_data (?segs ! i)" by blast
    then show "\<exists>k<length target_data. m_dof_idx s = Some (int k)
                                   \<and> r ! k = weighted_sum source_data s"
      by (simp only: i(2))
  qed
  have r4: "\<forall>j<length target_data.
              (\<forall>s\<in>set ?segs. m_dof_idx s \<noteq> Some (int j)) \<longrightarrow> r ! j = ?h ! j"
  proof (intro allI impI)
    fix j assume j: "j < length target_data" "\<forall>s\<in>set ?segs. m_dof_idx s \<noteq> Some (int j)"
    have "\<forall>i\<in>set ?iis. m_dof_idx (?segs ! i) \<noteq> Some (int j)"
    proof
      fix i assume "i \<in> set ?iis"
      then have "?segs ! i \<in> set ?segs" by simp
      with j(2) show "m_dof_idx (?segs ! i) \<noteq> Some (int j)" by blast
    qed
    with r(4) j(1) show "r ! j = ?h ! j" by blast
  qed
  show "\<exists>r. apply_remap mirror m source_data target_data = Inr r
        \<and> length r = length target_data
        \<and> (\<forall>s\<in>set ?segs.
              \<exists>k<length target_data. m_dof_idx s = Some (int k)
                                   \<and> r ! k = weighted_sum source_data s)
        \<and> (?h = target_data \<longrightarrow>
             (\<forall>j<length target_data.
                (\<forall>s\<in>set ?segs. m_dof_idx s \<noteq> Some (int j))
                  \<longrightarrow> r ! j = target_data ! j))"
  proof (cases "m_num_dofs m = 0")
    case False
    then have "apply_remap mirror m source_data target_data = Inr r"
      using r(1) inv(1) by (simp add: apply_remap_def)
    with r(2) r3 r4 show ?thesis by (intro exI [of _ r]) simp
  next
    case True
    then have "m_dofs_gids m = []" using inv(2) by simp
    then have "?segs = []" using res by (cases ?segs) (auto simp: seg_resolved_def)
    then show ?thesis using True by (simp add: apply_remap_def)
  qed
qed

text \<open>The map \<open>example_map\<close> satisfies the invariant, and its segment is resolved.\<close>

lemma example_map_resolved:
  "GSMap_inv example_map"
  "list_all (seg_resolved (m_dofs_gids example_map) (m_unique_dofs example_map))
     (m_map_segments example_map)"
  by (simp_all add: example_map_def GSMap_inv_def seg_wf_def seg_resolved_def less_Suc_eq
        numeral_2_eq_2)

text \<open>
  Claim C1. The map \<open>example_map\<close> has the local DOFs \<open>2\<close> and \<open>5\<close> and one segment,
  resolved, for DOF \<open>2\<close>; no row of the remap targets DOF \<open>5\<close>. The target buffer
  \<open>[100, 200]\<close> has the extent of the local DOFs. Where \<open>create_mirror_view\<close> allocates
  a view of its own, zero-filled, as it does for device memory, \<open>apply_remap\<close> returns
  \<open>[3/2, 0]\<close>: entry \<open>0\<close> holds the weighted sum of the segment, and entry \<open>1\<close>, the
  \<open>dof_idx\<close> of no segment, has lost its \<open>200\<close> to the content of the mirror, which is
  never filled from the target. Where the mirror is the target view itself the result is
  \<open>[3/2, 200]\<close>.
\<close>

theorem apply_remap_overwrites_unmapped_entry:
  "m_dofs_gids example_map = [2, 5]
   \<and> m_num_dofs example_map = int (length [100, 200 :: real])
   \<and> m_unique_dofs example_map = [3, 8]
   \<and> map m_dof (m_map_segments example_map) = [2]
   \<and> map m_dof_idx (m_map_segments example_map) = [Some 0]
   \<and> map (weighted_sum [1, 2]) (m_map_segments example_map) = [3 / 2]
   \<and> apply_remap (\<lambda>v. replicate (length v) 0) example_map [1, 2] [100, 200] = Inr [3 / 2, 0]
   \<and> apply_remap (\<lambda>v. v) example_map [1, 2] [100, 200] = Inr [3 / 2, 200]"
proof -
  have "map (weighted_sum [1, 2]) (m_map_segments example_map) = [3 / 2]"
    by (simp add: example_map_def weighted_sum_def lessThan_Suc numeral_2_eq_2)
  moreover have
    "apply_remap (\<lambda>v. replicate (length v) 0) example_map [1, 2] [100, 200] = Inr [3 / 2, 0]"
    "apply_remap (\<lambda>v. v) example_map [1, 2] [100, 200] = Inr [3 / 2, 200]"
    unfolding example_map_def by code_simp+
  ultimately show ?thesis by (simp add: example_map_def)
qed

section \<open>Properties of the field-name synthesizers\<close>

lemma aero_species_name_symbol:
  "a \<noteq> NoAero \<Longrightarrow> aero_species_name (AeroId_int a) = Inr (species_symbol a)"
  by (cases a) (simp_all add: aero_species_name_def species_symbol_def view_at_def)

lemma species_symbol_length:
  "a \<noteq> NoAero \<Longrightarrow> 0 < length (species_symbol a) \<and> length (species_symbol a) \<le> 4"
  by (cases a) (simp_all add: species_symbol_def)

lemma aero_mode_name_number:
  "m < num_aero_modes \<Longrightarrow> aero_mode_name (int m) = Inr (mode_number m)"
  by (simp add: aero_mode_name_def mode_number_def num_aero_modes_def)

lemma mode_number_length: "m < num_aero_modes \<Longrightarrow> length (mode_number m) = 1"
proof -
  assume "m < num_aero_modes"
  then have "m = 0 \<or> m = 1 \<or> m = 2 \<or> m = 3" by (auto simp: num_aero_modes_def)
  then show ?thesis by (auto simp: mode_number_def)
qed

lemma names_at_ok:
  assumes "length t = num_aero_modes" "length (t ! m) = num_aero_species"
      and "m < num_aero_modes" "a < num_aero_species"
  shows "names_at t (int m) (int a) = Inr (t ! m ! a)"
  using assms by (simp add: names_at_def)

lemma names_set_ok:
  assumes "length t = num_aero_modes" "length (t ! m) = num_aero_species"
      and "m < num_aero_modes" "a < num_aero_species"
  shows "names_set t (int m) (int a) s = Inr (t[m := (t ! m)[a := s]])"
  using assms by (simp add: names_set_def)

lemma names_ok_update:
  assumes ok: "names_ok x mas t" and m: "m < num_aero_modes" and a: "a < num_aero_species"
  shows "names_ok x mas (t[m := (t ! m)[a := expected_name x mas m a]])"
  unfolding names_ok_def
proof (intro conjI allI impI)
  let ?t' = "t[m := (t ! m)[a := expected_name x mas m a]]"
  show "length ?t' = num_aero_modes" using ok by (simp add: names_ok_def)
  fix m' assume m': "m' < num_aero_modes"
  show "length (?t' ! m') = num_aero_species"
    using ok m m' by (cases "m' = m") (simp_all add: names_ok_def)
  fix a' assume a': "a' < num_aero_species"
  from ok m' a' have old: "t ! m' ! a' = [] \<or> t ! m' ! a' = expected_name x mas m' a'"
    by (simp add: names_ok_def)
  from ok m m' have len: "m < length t" "length (t ! m) = num_aero_species"
    by (simp_all add: names_ok_def)
  show "?t' ! m' ! a' = [] \<or> ?t' ! m' ! a' = expected_name x mas m' a'"
  proof (cases "m' = m")
    case False
    then show ?thesis using old by simp
  next
    case True
    show ?thesis
    proof (cases "a' = a")
      case True
      then show ?thesis using \<open>m' = m\<close> len a by simp
    next
      case False
      then show ?thesis using \<open>m' = m\<close> len old by simp
    qed
  qed
qed

lemma aero_mmr_field_name_result:
  assumes ok: "names_ok x mas t" and m: "m < num_aero_modes" and a: "a < num_aero_species"
      and x: "length x = 2"
  shows "\<exists>t'. aero_mmr_field_name x mas t (int m) (int a) = Inr (expected_name x mas m a, t')
            \<and> names_ok x mas t'
            \<and> aero_mmr_field_name x mas t' (int m) (int a) = Inr (expected_name x mas m a, t')"
proof -
  from ok m have dims: "length t = num_aero_modes" "length (t ! m) = num_aero_species"
    by (simp_all add: names_ok_def)
  note at = names_at_ok [OF dims m a]
  from ok m a have old: "t ! m ! a = [] \<or> t ! m ! a = expected_name x mas m a"
    by (simp add: names_ok_def)
  let ?id = "mas (int m) (int a)"
  let ?e = "expected_name x mas m a"
  show ?thesis
  proof (cases "?id = NoAero")
    case True
    then have e: "?e = []" by (simp add: expected_name_def)
    with old have "t ! m ! a = []" by auto
    then have "aero_mmr_field_name x mas t (int m) (int a) = Inr ([], t)"
      using at True by (simp add: aero_mmr_field_name_def)
    with e ok show ?thesis by auto
  next
    case False
    then have e: "?e = species_symbol ?id @ x @ mode_number m" by (simp add: expected_name_def)
    have ne: "?e \<noteq> []" using e species_symbol_length [OF False] by auto
    have fits: "concat_3_strings (species_symbol ?id) x (mode_number m) = Inr ?e"
      using species_symbol_length [OF False] mode_number_length [OF m] x e
      by (simp add: concat_3_strings_def gpu_strlen_def max_field_name_len_def Let_def)
    let ?t' = "t[m := (t ! m)[a := ?e]]"
    have ok': "names_ok x mas ?t'" using names_ok_update [OF ok m a] .
    have dims': "length ?t' = num_aero_modes" "length (?t' ! m) = num_aero_species"
      using dims m by simp_all
    have at': "names_at ?t' (int m) (int a) = Inr ?e"
      using names_at_ok [OF dims' m a] dims m a by simp
    have again: "aero_mmr_field_name x mas ?t' (int m) (int a) = Inr (?e, ?t')"
      using at' ne by (simp add: aero_mmr_field_name_def)
    show ?thesis
    proof (cases "t ! m ! a = []")
      case True
      then have "aero_mmr_field_name x mas t (int m) (int a) = Inr (?e, ?t')"
        using at False aero_species_name_symbol [OF False] aero_mode_name_number [OF m]
              fits names_set_ok [OF dims m a] at'
        by (simp add: aero_mmr_field_name_def Let_def)
      with ok' again show ?thesis by blast
    next
      case filled: False
      with old have eq: "t ! m ! a = ?e" by simp
      then have "aero_mmr_field_name x mas t (int m) (int a) = Inr (?e, t)"
        using at ne by (simp add: aero_mmr_field_name_def)
      with ok show ?thesis by blast
    qed
  qed
qed

lemma names_ok_empty: "names_ok x mas empty_names"
  by (simp add: names_ok_def empty_names_def)

text \<open>
  Claim C8. For every mode index below four and species index below seven, and a name
  table as earlier calls with the same registry can have left it (the zero-filled table
  of program start is one): the interstitial synthesizer returns, without error, the
  empty string when the registry marks the pair as absent and otherwise the symbolic
  name of the registry's species, \<open>_a\<close> and the one-based mode number; the table it
  leaves is again such a table, and the same call on it returns the same string and
  table. The cloudborne synthesizer does the same with \<open>_c\<close>.
\<close>

theorem aero_mmr_field_names_synthesized:
  assumes "m < num_aero_modes" and "a < num_aero_species"
  shows "(names_ok ''_a'' mas ti \<longrightarrow>
           (\<exists>t'. int_aero_mmr_field_name mas ti (int m) (int a)
                    = Inr (if mas (int m) (int a) = NoAero then []
                           else species_symbol (mas (int m) (int a)) @ ''_a'' @ mode_number m, t')
                \<and> names_ok ''_a'' mas t'
                \<and> int_aero_mmr_field_name mas t' (int m) (int a)
                    = int_aero_mmr_field_name mas ti (int m) (int a)))
       \<and> (names_ok ''_c'' mas tc \<longrightarrow>
           (\<exists>t'. cld_aero_mmr_field_name mas tc (int m) (int a)
                    = Inr (if mas (int m) (int a) = NoAero then []
                           else species_symbol (mas (int m) (int a)) @ ''_c'' @ mode_number m, t')
                \<and> names_ok ''_c'' mas t'
                \<and> cld_aero_mmr_field_name mas t' (int m) (int a)
                    = cld_aero_mmr_field_name mas tc (int m) (int a)))
       \<and> names_ok ''_a'' mas empty_names \<and> names_ok ''_c'' mas empty_names"
proof (intro conjI impI)
  assume ok: "names_ok ''_a'' mas ti"
  from aero_mmr_field_name_result [OF ok assms] obtain t' where
    "aero_mmr_field_name ''_a'' mas ti (int m) (int a) = Inr (expected_name ''_a'' mas m a, t')"
    "names_ok ''_a'' mas t'"
    "aero_mmr_field_name ''_a'' mas t' (int m) (int a) = Inr (expected_name ''_a'' mas m a, t')"
    by auto
  then show "\<exists>t'. int_aero_mmr_field_name mas ti (int m) (int a)
                    = Inr (if mas (int m) (int a) = NoAero then []
                           else species_symbol (mas (int m) (int a)) @ ''_a'' @ mode_number m, t')
                \<and> names_ok ''_a'' mas t'
                \<and> int_aero_mmr_field_name mas t' (int m) (int a)
                    = int_aero_mmr_field_name mas ti (int m) (int a)"
    by (intro exI [of _ t']) (simp add: int_aero_mmr_field_name_def expected_name_def)
next
  assume ok: "names_ok ''_c'' mas tc"
  from aero_mmr_field_name_result [OF ok assms] obtain t' where
    "aero_mmr_field_name ''_c'' mas tc (int m) (int a) = Inr (expected_name ''_c'' mas m a, t')"
    "names_ok ''_c'' mas t'"
    "aero_mmr_field_name ''_c'' mas t' (int m) (int a) = Inr (expected_name ''_c'' mas m a, t')"
    by auto
  then show "\<exists>t'. cld_aero_mmr_field_name mas tc (int m) (int a)
                    = Inr (if mas (int m) (int a) = NoAero then []
                           else species_symbol (mas (int m) (int a)) @ ''_c'' @ mode_number m, t')
                \<and> names_ok ''_c'' mas t'
                \<and> cld_aero_mmr_field_name mas t' (int m) (int a)
                    = cld_aero_mmr_field_name mas tc (int m) (int a)"
    by (intro exI [of _ t']) (simp add: cld_aero_mmr_field_name_def expected_name_def)
qed (rule names_ok_empty)+

theorem aero_mmr_field_names_synthesized_witness:
  "(1::nat) < num_aero_modes \<and> (2::nat) < num_aero_species \<and> (5::nat) < num_aero_species
   \<and> names_ok ''_a'' example_mode_aero_species empty_names
   \<and> names_ok ''_c'' example_mode_aero_species empty_names
   \<and> (\<exists>t'. int_aero_mmr_field_name example_mode_aero_species empty_names 1 2
              = Inr (''nacl_a2'', t'))
   \<and> (\<exists>t'. cld_aero_mmr_field_name example_mode_aero_species empty_names 1 2
              = Inr (''nacl_c2'', t'))
   \<and> (\<exists>t'. int_aero_mmr_field_name example_mode_aero_species empty_names 1 5 = Inr ([], t'))"
proof -
  have pre: "(1::nat) < num_aero_modes" "(2::nat) < num_aero_species" "(5::nat) < num_aero_species"
    by (simp_all add: num_aero_modes_def num_aero_species_def)
  have reg: "example_mode_aero_species 1 2 = NaCl" "example_mode_aero_species 1 5 = NoAero"
    by (simp_all add: example_mode_aero_species_def)
  have sym: "species_symbol NaCl = ''nacl''" "mode_number 1 = ''2''"
    by (simp_all add: species_symbol_def mode_number_def)
  note valid = aero_mmr_field_names_synthesized [OF pre(1) pre(2),
      of example_mode_aero_species empty_names empty_names]
  note invalid = aero_mmr_field_names_synthesized [OF pre(1) pre(3),
      of example_mode_aero_species empty_names empty_names]
  from valid have ok: "names_ok ''_a'' example_mode_aero_species empty_names"
      "names_ok ''_c'' example_mode_aero_species empty_names" by simp_all
  from valid ok reg sym
  have v: "\<exists>t'. int_aero_mmr_field_name example_mode_aero_species empty_names 1 2
              = Inr (''nacl_a2'', t')"
          "\<exists>t'. cld_aero_mmr_field_name example_mode_aero_species empty_names 1 2
              = Inr (''nacl_c2'', t')"
    by auto
  from invalid ok reg
  have i: "\<exists>t'. int_aero_mmr_field_name example_mode_aero_species empty_names 1 5 = Inr ([], t')"
    by auto
  from pre ok v i show ?thesis by blast
qed

section \<open>Properties of the scratch buffer\<close>

lemma num_2d_mid_eq: "num_2d_mid = 74"
  by (simp add: num_2d_mid_def num_aero_modes_def num_aero_tracers_def num_aero_gases_def
                num_2d_scratch_def)

lemma given_length: "length view_2d_mid_ptrs_given = 64"
  by (simp add: view_2d_mid_ptrs_given_def)

lemma ptrs_init_eq:
  "view_2d_mid_ptrs_init = map Some view_2d_mid_ptrs_given @ replicate 10 None"
  by (simp add: view_2d_mid_ptrs_init_def num_2d_mid_eq given_length)

lemma set_scratch_ptrs_result:
  "set_scratch_ptrs [0..<num_2d_scratch] view_2d_mid_ptrs_init
     = Inr (map Some (view_2d_mid_ptrs_given @ map Scratch [0..<num_2d_scratch]))"
  by (simp add: ptrs_init_eq num_2d_scratch_def num_2d_mid_eq view_2d_mid_ptrs_given_def
                view_set_def upt_rec numeral_eq_Suc)

lemma bind_views_result:
  assumes "\<forall>i\<in>set is. i < length fs" and "distinct is" and "inj_on (\<lambda>i. fs ! i) (set is)"
  shows "\<exists>b'. bind_views (map Some fs) e0 e1 is (b, mem) = Inr (b', mem + length is * (e0 * e1))
            \<and> (\<forall>p<length is. views b' (fs ! (is ! p))
                   = Some \<lparr>data = mem + p * (e0 * e1), extent_0 = e0, extent_1 = e1\<rparr>)
            \<and> (\<forall>f. f \<notin> (\<lambda>i. fs ! i) ` set is \<longrightarrow> views b' f = views b f)
            \<and> wsm_data b' = wsm_data b"
  using assms
proof (induction "is" arbitrary: b mem)
  case Nil
  then show ?case by simp
next
  case (Cons i rest)
  let ?v = "\<lparr>data = mem, extent_0 = e0, extent_1 = e1\<rparr>"
  let ?b1 = "b\<lparr>views := (views b)(fs ! i \<mapsto> ?v)\<rparr>"
  let ?m1 = "mem + e0 * e1"
  from Cons.prems have i: "i < length fs" "i \<notin> set rest" by simp_all
  have step: "bind_views (map Some fs) e0 e1 (i # rest) (b, mem)
                = bind_views (map Some fs) e0 e1 rest (?b1, ?m1)"
    using i(1) by (simp add: view_size_def)
  from Cons.prems have pre: "\<forall>i\<in>set rest. i < length fs" "distinct rest"
      "inj_on (\<lambda>i. fs ! i) (set rest)"
    by (simp_all add: inj_on_def)
  from Cons.IH [OF pre, of ?b1 ?m1] obtain b' where
    b': "bind_views (map Some fs) e0 e1 rest (?b1, ?m1) = Inr (b', ?m1 + length rest * (e0 * e1))"
        "\<forall>p<length rest. views b' (fs ! (rest ! p))
             = Some \<lparr>data = ?m1 + p * (e0 * e1), extent_0 = e0, extent_1 = e1\<rparr>"
        "\<forall>f. f \<notin> (\<lambda>i. fs ! i) ` set rest \<longrightarrow> views b' f = views ?b1 f"
        "wsm_data b' = wsm_data ?b1"
    by blast
  have notin: "fs ! i \<notin> (\<lambda>i. fs ! i) ` set rest"
  proof
    assume "fs ! i \<in> (\<lambda>i. fs ! i) ` set rest"
    then obtain j where j: "j \<in> set rest" "fs ! j = fs ! i" by auto
    with Cons.prems(3) have "j = i" by (simp add: inj_on_def)
    with j(1) i(2) show False by simp
  qed
  have a: "bind_views (map Some fs) e0 e1 (i # rest) (b, mem)
             = Inr (b', mem + length (i # rest) * (e0 * e1))"
    using step b'(1) by (simp add: algebra_simps)
  have c: "\<forall>p<length (i # rest). views b' (fs ! ((i # rest) ! p))
             = Some \<lparr>data = mem + p * (e0 * e1), extent_0 = e0, extent_1 = e1\<rparr>"
  proof (intro allI impI)
    fix p assume p: "p < length (i # rest)"
    show "views b' (fs ! ((i # rest) ! p))
             = Some \<lparr>data = mem + p * (e0 * e1), extent_0 = e0, extent_1 = e1\<rparr>"
    proof (cases p)
      case 0
      then show ?thesis using b'(3) notin by simp
    next
      case (Suc q)
      then show ?thesis using b'(2) p by (simp add: algebra_simps)
    qed
  qed
  have d: "\<forall>f. f \<notin> (\<lambda>i. fs ! i) ` set (i # rest) \<longrightarrow> views b' f = views b f"
    using b'(3) by auto
  have e: "wsm_data b' = wsm_data b" using b'(4) by simp
  from a c d e show ?case by blast
qed

lemma bind_views_upt:
  assumes "distinct fs"
  shows "\<exists>b'. bind_views (map Some fs) e0 e1 [0..<length fs] (b, mem)
                 = Inr (b', mem + length fs * (e0 * e1))
            \<and> (\<forall>p<length fs. views b' (fs ! p)
                   = Some \<lparr>data = mem + p * (e0 * e1), extent_0 = e0, extent_1 = e1\<rparr>)
            \<and> (\<forall>f. f \<notin> set fs \<longrightarrow> views b' f = views b f)
            \<and> wsm_data b' = wsm_data b"
proof -
  have inj: "inj_on (\<lambda>i. fs ! i) (set [0..<length fs])"
    using assms by (auto simp: inj_on_def nth_eq_iff_index_eq)
  have img: "(!) fs ` {0..<length fs} = set fs"
    by (simp add: nth_image)
  have "\<forall>i\<in>set [0..<length fs]. i < length fs" by simp
  from bind_views_result [OF this _ inj, of e0 e1 b mem] show ?thesis
    by (simp add: img)
qed

lemma mid_fields_distinct:
  "distinct (view_2d_mid_ptrs_given @ map Scratch [0..<num_2d_scratch])"
proof -
  have "distinct view_2d_mid_ptrs_given" by (simp add: view_2d_mid_ptrs_given_def)
  moreover have "distinct (map Scratch [0..<num_2d_scratch])"
    by (simp add: distinct_map inj_on_def)
  moreover have "set view_2d_mid_ptrs_given \<inter> set (map Scratch [0..<num_2d_scratch]) = {}"
    by (auto simp: view_2d_mid_ptrs_given_def)
  ultimately show ?thesis by simp
qed

lemma Z_iface_not_mid:
  "Z_iface \<notin> set (view_2d_mid_ptrs_given @ map Scratch [0..<num_2d_scratch])"
  by (auto simp: view_2d_mid_ptrs_given_def)

lemma mid_fields_length:
  "length (view_2d_mid_ptrs_given @ map Scratch [0..<num_2d_scratch]) = num_2d_mid"
  by (simp add: given_length num_2d_scratch_def num_2d_mid_eq)

lemma int_mul_Inr: "0 \<le> a * b \<Longrightarrow> a * b \<le> INT_MAX \<Longrightarrow> int_mul a b = Inr (a * b)"
  by (simp add: int_mul_def INT_MAX_def)

lemma int_add_Inr: "0 \<le> a + b \<Longrightarrow> a + b \<le> INT_MAX \<Longrightarrow> int_add a b = Inr (a + b)"
  by (simp add: int_add_def INT_MAX_def)

lemma buffer_size_in_range:
  assumes "0 < ncol" "0 < nlev" "75 * (ncol * nlev) + ncol \<le> INT_MAX"
  shows "buffer_size sizeof_Real ncol nlev
           = Inr (size_t_mul sizeof_Real (nat (75 * (ncol * nlev) + ncol)))"
proof -
  let ?P = "ncol * nlev"
  have "ncol * 1 \<le> ncol * nlev" using assms(1,2) by (intro mult_left_mono) simp_all
  then have P1: "ncol \<le> ?P" by simp
  have "1 * nlev \<le> ncol * nlev" using assms(1,2) by (intro mult_right_mono) simp_all
  then have P2: "nlev \<le> ?P" by simp
  have s1: "int_mul (int num_2d_mid) ncol = Inr (74 * ncol)"
  proof -
    have "0 \<le> 74 * ncol" "74 * ncol \<le> INT_MAX" using assms P1 by linarith+
    then show ?thesis using int_mul_Inr [of 74 ncol] by (simp add: num_2d_mid_eq)
  qed
  have s2: "int_mul (74 * ncol) nlev = Inr (74 * ?P)"
  proof -
    have "(74 * ncol) * nlev = 74 * ?P" by simp
    moreover have "0 \<le> 74 * ?P" "74 * ?P \<le> INT_MAX" using assms P1 by linarith+
    ultimately show ?thesis using int_mul_Inr [of "74 * ncol" nlev] by simp
  qed
  have s3: "int_mul (int num_2d_iface) ncol = Inr ncol"
  proof -
    have "0 \<le> 1 * ncol" "1 * ncol \<le> INT_MAX" using assms P1 by linarith+
    then show ?thesis using int_mul_Inr [of 1 ncol] by (simp add: num_2d_iface_def)
  qed
  have s4: "int_add nlev 1 = Inr (nlev + 1)"
  proof -
    have "0 \<le> nlev + 1" "nlev + 1 \<le> INT_MAX" using assms P1 P2 by linarith+
    then show ?thesis by (rule int_add_Inr)
  qed
  have s5: "int_mul ncol (nlev + 1) = Inr (?P + ncol)"
  proof -
    have eq: "ncol * (nlev + 1) = ?P + ncol" by (simp add: algebra_simps)
    have "0 \<le> ?P + ncol" "?P + ncol \<le> INT_MAX" using assms P1 by linarith+
    then show ?thesis using int_mul_Inr [of ncol "nlev + 1"] by (simp only: eq)
  qed
  have s6: "int_add (74 * ?P) (?P + ncol) = Inr (75 * ?P + ncol)"
  proof -
    have eq: "74 * ?P + (?P + ncol) = 75 * ?P + ncol" by simp
    have "0 \<le> 75 * ?P + ncol" "75 * ?P + ncol \<le> INT_MAX" using assms P1 by linarith+
    then show ?thesis using int_add_Inr [of "74 * ?P" "?P + ncol"] by (simp only: eq)
  qed
  have "0 \<le> 75 * ?P + ncol" "75 * ?P + ncol < 2 ^ 64"
    using assms P1 by (simp_all add: INT_MAX_def)
  then have "size_t_of_int (75 * ?P + ncol) = nat (75 * ?P + ncol)"
    by (simp add: size_t_of_int_def)
  then show ?thesis by (simp add: buffer_size_def s1 s2 s3 s4 s5 s6)
qed

lemma bind_res_overflow:
  "(\<And>x. r = Inr x \<Longrightarrow> f x = Inl IntOverflow) \<Longrightarrow> r = Inl IntOverflow \<or> (\<exists>x. r = Inr x)
     \<Longrightarrow> bind_res r f = Inl IntOverflow"
  by (auto simp: bind_res_def)

lemma int_mul_cases: "int_mul a b = Inl IntOverflow \<or> int_mul a b = Inr (a * b)"
  by (simp add: int_mul_def)

lemma int_add_cases: "int_add a b = Inl IntOverflow \<or> int_add a b = Inr (a + b)"
  by (simp add: int_add_def)

lemma buffer_size_overflow:
  assumes "INT_MAX < 75 * (ncol * nlev) + ncol"
  shows "buffer_size sizeof_Real ncol nlev = Inl IntOverflow"
proof -
  let ?P = "ncol * nlev"
  have last: "int_add (74 * ncol * nlev) (1 * ncol * (nlev + 1)) = Inl IntOverflow"
  proof -
    have "74 * ncol * nlev + 1 * ncol * (nlev + 1) = 75 * ?P + ncol" by (simp add: algebra_simps)
    then show ?thesis using assms by (simp add: int_add_def)
  qed
  show ?thesis
    unfolding buffer_size_def num_2d_mid_eq num_2d_iface_def
    using int_mul_cases [of 74 ncol] int_mul_cases [of "74 * ncol" nlev]
          int_mul_cases [of 1 ncol] int_add_cases [of nlev 1]
          int_mul_cases [of "1 * ncol" "nlev + 1"] last
    by (auto simp: bind_res_def)
qed

lemma init_buffer_layout:
  assumes "0 < ncol" "0 < nlev" "nlev < INT_MAX"
  shows "\<exists>b'. init_buffer sizeof_Real ncol nlev b
                 = Inr (b', size_t_mul (75 * (nat ncol * nat nlev) + nat ncol) sizeof_Real)
            \<and> (\<forall>p<num_2d_mid.
                   views b' (bound_fields ! p)
                     = Some \<lparr>data = p * (nat ncol * nat nlev),
                             extent_0 = nat ncol, extent_1 = nat nlev\<rparr>)
            \<and> views b' (bound_fields ! num_2d_mid)
                 = Some \<lparr>data = num_2d_mid * (nat ncol * nat nlev),
                         extent_0 = nat ncol, extent_1 = nat nlev + 1\<rparr>
            \<and> (\<forall>f. f \<notin> set bound_fields \<longrightarrow> views b' f = views b f)
            \<and> wsm_data b' = Some (75 * (nat ncol * nat nlev) + nat ncol)"
proof -
  let ?mid = "view_2d_mid_ptrs_given @ map Scratch [0..<num_2d_scratch]"
  let ?sz = "nat ncol * nat nlev"
  have len: "length ?mid = num_2d_mid" by (rule mid_fields_length)
  from bind_views_upt [OF mid_fields_distinct, of "nat ncol" "nat nlev" b 0] obtain b1 where
    b1: "bind_views (map Some ?mid) (nat ncol) (nat nlev) [0..<num_2d_mid] (b, 0)
           = Inr (b1, num_2d_mid * ?sz)"
        "\<forall>p<num_2d_mid. views b1 (?mid ! p)
             = Some \<lparr>data = p * ?sz, extent_0 = nat ncol, extent_1 = nat nlev\<rparr>"
        "\<forall>f. f \<notin> set ?mid \<longrightarrow> views b1 f = views b f"
    unfolding len by auto
  have s4: "int_add nlev 1 = Inr (nlev + 1)"
    using assms by (intro int_add_Inr) simp_all
  let ?v = "\<lparr>data = num_2d_mid * ?sz, extent_0 = nat ncol, extent_1 = nat (nlev + 1)\<rparr>"
  let ?b2 = "b1\<lparr>views := (views b1)(Z_iface \<mapsto> ?v)\<rparr>"
  have iface: "bind_views [Some Z_iface] (nat ncol) (nat (nlev + 1)) [0..<num_2d_iface]
                 (b1, num_2d_mid * ?sz)
               = Inr (?b2, num_2d_mid * ?sz + nat ncol * nat (nlev + 1))"
    by (simp add: num_2d_iface_def view_at_def view_size_def)
  have n1: "nat (nlev + 1) = nat nlev + 1" using assms by simp
  have "nat ncol * nat (nlev + 1) = ?sz + nat ncol" by (simp only: n1) simp
  then have total: "num_2d_mid * ?sz + nat ncol * nat (nlev + 1) = 75 * ?sz + nat ncol"
    by (simp add: num_2d_mid_eq)
  let ?b' = "?b2\<lparr>wsm_data := Some (75 * ?sz + nat ncol)\<rparr>"
  have run: "init_buffer sizeof_Real ncol nlev b
               = Inr (?b', size_t_mul (75 * ?sz + nat ncol) sizeof_Real)"
    by (simp only: init_buffer_def set_scratch_ptrs_result bind_res_Inr b1(1) prod.case s4
                   iface total)
  have bf: "bound_fields = ?mid @ [Z_iface]" by (simp add: bound_fields_def)
  have mid_nth: "bound_fields ! p = ?mid ! p" if "p < num_2d_mid" for p
    using that len by (metis bf nth_append)
  have last_nth: "bound_fields ! num_2d_mid = Z_iface"
    using len by (metis bf nth_append_length)
  have c1: "\<forall>p<num_2d_mid. views ?b' (bound_fields ! p)
             = Some \<lparr>data = p * ?sz, extent_0 = nat ncol, extent_1 = nat nlev\<rparr>"
  proof (intro allI impI)
    fix p assume p: "p < num_2d_mid"
    then have "?mid ! p \<in> set ?mid" using len by (metis nth_mem)
    then have "?mid ! p \<noteq> Z_iface" using Z_iface_not_mid by metis
    then show "views ?b' (bound_fields ! p)
             = Some \<lparr>data = p * ?sz, extent_0 = nat ncol, extent_1 = nat nlev\<rparr>"
      using b1(2) p by (simp add: mid_nth)
  qed
  have c2: "views ?b' (bound_fields ! num_2d_mid)
              = Some \<lparr>data = num_2d_mid * ?sz, extent_0 = nat ncol, extent_1 = nat nlev + 1\<rparr>"
    by (simp add: last_nth n1)
  have c3: "\<forall>f. f \<notin> set bound_fields \<longrightarrow> views ?b' f = views b f"
    using b1(3) by (simp add: bf)
  have c4: "wsm_data ?b' = Some (75 * ?sz + nat ncol)" by simp
  from run c1 c2 c3 c4 show ?thesis by blast
qed

lemma bound_fields_distinct: "distinct bound_fields"
  using mid_fields_distinct Z_iface_not_mid by (simp add: bound_fields_def)

lemma bound_fields_length: "length bound_fields = num_2d_mid + num_2d_iface"
  using mid_fields_length by (simp add: bound_fields_def num_2d_iface_def)

text \<open>
  Claim C9, as amended. For positive \<open>ncol\<close> and \<open>nlev\<close> whose total count of entries,
  \<open>75 * ncol * nlev + ncol\<close>, is within \<open>int\<close>: \<open>init_buffer\<close> returns; it binds the
  seventy-four midpoint views its pointer array lists and the interface view, seventy-five
  distinct fields, each with \<open>ncol\<close> columns and \<open>nlev\<close> (the interface view
  \<open>nlev + 1\<close>) levels; the first starts at the start of the arena, each next one starts
  where the one before ends, no two of them overlap, and \<open>wsm_data\<close> points to the end
  of the last; every other view of the buffer is left as it was; and the number of bytes
  returned is what \<open>buffer_size\<close> returns for the same \<open>ncol\<close> and \<open>nlev\<close>.
\<close>

theorem init_buffer_binds:
  assumes "0 < ncol" and "0 < nlev" and "75 * (ncol * nlev) + ncol \<le> INT_MAX"
  shows "\<exists>b' bytes layout.
           init_buffer sizeof_Real ncol nlev b = Inr (b', bytes)
         \<and> buffer_size sizeof_Real ncol nlev = Inr bytes
         \<and> distinct bound_fields
         \<and> length bound_fields = num_2d_mid + num_2d_iface
         \<and> length layout = length bound_fields
         \<and> (\<forall>p<length bound_fields.
               views b' (bound_fields ! p) = Some (layout ! p)
             \<and> extent_0 (layout ! p) = nat ncol
             \<and> extent_1 (layout ! p) = (if p < num_2d_mid then nat nlev else nat nlev + 1))
         \<and> data (layout ! 0) = 0
         \<and> (\<forall>p. Suc p < length bound_fields \<longrightarrow>
               data (layout ! Suc p) = data (layout ! p) + view_size (layout ! p))
         \<and> (\<forall>p<length bound_fields. \<forall>q<length bound_fields.
               p \<noteq> q \<longrightarrow> region (layout ! p) \<inter> region (layout ! q) = {})
         \<and> wsm_data b' = Some (data (last layout) + view_size (last layout))
         \<and> (\<forall>f. f \<notin> set bound_fields \<longrightarrow> views b' f = views b f)"
proof -
  let ?sz = "nat ncol * nat nlev"
  let ?n = "num_2d_mid"
  have "1 * nlev \<le> ncol * nlev" using assms(1,2) by (intro mult_right_mono) simp_all
  then have "nlev \<le> ncol * nlev" by simp
  then have "nlev < INT_MAX" using assms by linarith
  from init_buffer_layout [OF assms(1,2) this, of sizeof_Real b] obtain b' where
    b': "init_buffer sizeof_Real ncol nlev b
           = Inr (b', size_t_mul (75 * ?sz + nat ncol) sizeof_Real)"
        "\<forall>p<?n. views b' (bound_fields ! p)
             = Some \<lparr>data = p * ?sz, extent_0 = nat ncol, extent_1 = nat nlev\<rparr>"
        "views b' (bound_fields ! ?n)
             = Some \<lparr>data = ?n * ?sz, extent_0 = nat ncol, extent_1 = nat nlev + 1\<rparr>"
        "\<forall>f. f \<notin> set bound_fields \<longrightarrow> views b' f = views b f"
        "wsm_data b' = Some (75 * ?sz + nat ncol)"
    by blast
  define layout where
    "layout = map (\<lambda>p. \<lparr>data = p * ?sz, extent_0 = nat ncol, extent_1 = nat nlev\<rparr>) [0..<?n]
              @ [\<lparr>data = ?n * ?sz, extent_0 = nat ncol, extent_1 = nat nlev + 1\<rparr>]"
  have len: "length bound_fields = Suc ?n"
    by (simp add: bound_fields_length num_2d_iface_def)
  have ll: "length layout = Suc ?n" by (simp add: layout_def)
  have lay_mid: "layout ! p = \<lparr>data = p * ?sz, extent_0 = nat ncol, extent_1 = nat nlev\<rparr>"
    if "p < ?n" for p using that by (simp add: layout_def nth_append)
  have lay_last: "layout ! ?n = \<lparr>data = ?n * ?sz, extent_0 = nat ncol, extent_1 = nat nlev + 1\<rparr>"
    by (simp add: layout_def nth_append)
  have dat: "data (layout ! p) = p * ?sz" if "p \<le> ?n" for p
    using that lay_mid [of p] lay_last by (cases "p = ?n") simp_all
  have siz: "view_size (layout ! p) = ?sz" if "p < ?n" for p
    using that lay_mid [of p] by (simp add: view_size_def)
  have siz_last: "view_size (layout ! ?n) = ?sz + nat ncol"
    using lay_last by (simp add: view_size_def)
  have bytes: "buffer_size sizeof_Real ncol nlev
                 = Inr (size_t_mul (75 * ?sz + nat ncol) sizeof_Real)"
  proof -
    have "nat (75 * (ncol * nlev) + ncol) = 75 * ?sz + nat ncol"
      using assms(1,2) by (simp add: nat_add_distrib nat_mult_distrib)
    then show ?thesis
      using buffer_size_in_range [OF assms, of sizeof_Real]
      by (simp add: size_t_mul_def mult.commute)
  qed
  have c1: "\<forall>p<length bound_fields.
               views b' (bound_fields ! p) = Some (layout ! p)
             \<and> extent_0 (layout ! p) = nat ncol
             \<and> extent_1 (layout ! p) = (if p < ?n then nat nlev else nat nlev + 1)"
  proof (intro allI impI)
    fix p assume "p < length bound_fields"
    then have "p < ?n \<or> p = ?n" using len by auto
    then show "views b' (bound_fields ! p) = Some (layout ! p)
             \<and> extent_0 (layout ! p) = nat ncol
             \<and> extent_1 (layout ! p) = (if p < ?n then nat nlev else nat nlev + 1)"
      using b'(2,3) lay_mid [of p] lay_last by auto
  qed
  have c2: "data (layout ! 0) = 0" using dat [of 0] by simp
  have c3: "\<forall>p. Suc p < length bound_fields \<longrightarrow>
               data (layout ! Suc p) = data (layout ! p) + view_size (layout ! p)"
  proof (intro allI impI)
    fix p assume "Suc p < length bound_fields"
    then have p: "p < ?n" using len by simp
    then show "data (layout ! Suc p) = data (layout ! p) + view_size (layout ! p)"
      using dat [of "Suc p"] dat [of p] siz [of p] by simp
  qed
  have ends: "data (layout ! p) + view_size (layout ! p) \<le> data (layout ! q)"
    if "p < q" "q \<le> ?n" for p q
  proof -
    from that have p: "p < ?n" by simp
    have "data (layout ! p) + view_size (layout ! p) = Suc p * ?sz"
      using dat [of p] siz [OF p] p by simp
    also have "\<dots> \<le> q * ?sz" using that(1) by (intro mult_le_mono1) simp
    also have "\<dots> = data (layout ! q)" using dat [OF that(2)] by simp
    finally show ?thesis .
  qed
  have c4: "\<forall>p<length bound_fields. \<forall>q<length bound_fields.
               p \<noteq> q \<longrightarrow> region (layout ! p) \<inter> region (layout ! q) = {}"
  proof (intro allI impI)
    fix p q assume pq: "p < length bound_fields" "q < length bound_fields" "p \<noteq> q"
    then have le: "p \<le> ?n" "q \<le> ?n" using len by simp_all
    from pq(3) consider "p < q" | "q < p" by linarith
    then show "region (layout ! p) \<inter> region (layout ! q) = {}"
    proof cases
      case 1
      from ends [OF 1 le(2)] show ?thesis by (auto simp: region_def)
    next
      case 2
      from ends [OF 2 le(1)] show ?thesis by (auto simp: region_def)
    qed
  qed
  have "layout \<noteq> []" using ll by auto
  then have "last layout = layout ! ?n" using ll by (simp add: last_conv_nth)
  then have c5: "wsm_data b' = Some (data (last layout) + view_size (last layout))"
    using b'(5) dat [of ?n] siz_last by (simp add: num_2d_mid_eq)
  from b'(1) bytes bound_fields_distinct bound_fields_length ll len c1 c2 c3 c4 c5 b'(4)
  show ?thesis by (intro exI [of _ b'] exI [of _ layout] exI) auto
qed

theorem init_buffer_binds_witness:
  "(0::int) < 2 \<and> (0::int) < 3 \<and> 75 * (2 * 3) + 2 \<le> INT_MAX
   \<and> buffer_size 8 2 3 = Inr 3616
   \<and> (\<exists>b'. init_buffer 8 2 3 unbound_buffer = Inr (b', 3616)
           \<and> wsm_data b' = Some 452)"
proof -
  have pre: "(0::int) < 2" "(0::int) < 3" "75 * (2 * 3) + 2 \<le> INT_MAX"
    by (simp_all add: INT_MAX_def)
  have bs: "buffer_size 8 2 3 = Inr 3616"
    using buffer_size_in_range [OF pre, of 8] by (simp add: size_t_mul_def)
  from init_buffer_binds [OF pre, of 8 unbound_buffer] obtain b' bytes layout where
    r: "init_buffer 8 2 3 unbound_buffer = Inr (b', bytes)" "buffer_size 8 2 3 = Inr bytes"
       "length layout = length bound_fields"
       "\<forall>p<length bound_fields.
               views b' (bound_fields ! p) = Some (layout ! p)
             \<and> extent_0 (layout ! p) = nat 2
             \<and> extent_1 (layout ! p) = (if p < num_2d_mid then nat 3 else nat 3 + 1)"
       "data (layout ! 0) = 0"
       "\<forall>p. Suc p < length bound_fields \<longrightarrow>
               data (layout ! Suc p) = data (layout ! p) + view_size (layout ! p)"
       "wsm_data b' = Some (data (last layout) + view_size (last layout))"
    by blast
  from r(1,2) bs have b: "init_buffer 8 2 3 unbound_buffer = Inr (b', 3616)" by simp
  from init_buffer_layout [of 2 3 8 unbound_buffer] b
  have "wsm_data b' = Some 452" by (auto simp: INT_MAX_def)
  with pre bs b show ?thesis by blast
qed

lemma unbound_field_example: "Dry_int_aero_mmr 1 4 \<notin> set bound_fields"
  by (auto simp: bound_fields_def view_2d_mid_ptrs_given_def)

text \<open>
  Claim C9 as stated, every midpoint view of \<open>Buffer\<close> is bound, fails:
  \<open>dry_int_aero_mmr[1][4]\<close> is a midpoint view of \<open>Buffer\<close>, the pointer array does not
  list it (the second mode has four species), and it is unbound after \<open>init_buffer\<close>,
  while \<open>dry_int_aero_mmr[1][3]\<close> is bound.
\<close>

theorem init_buffer_binds_counterexample:
  "view_after_init 8 2 3 unbound_buffer (Dry_int_aero_mmr 1 4) = Inr None
   \<and> view_after_init 8 2 3 unbound_buffer (Dry_int_aero_mmr 1 3)
       = Inr (Some \<lparr>data = 33 * 6, extent_0 = 2, extent_1 = 3\<rparr>)"
proof -
  from init_buffer_layout [of 2 3 8 unbound_buffer] obtain b' where
    b': "init_buffer 8 2 3 unbound_buffer
           = Inr (b', size_t_mul (75 * (nat 2 * nat 3) + nat 2) 8)"
        "\<forall>p<num_2d_mid. views b' (bound_fields ! p)
             = Some \<lparr>data = p * (nat 2 * nat 3), extent_0 = nat 2, extent_1 = nat 3\<rparr>"
        "\<forall>f. f \<notin> set bound_fields \<longrightarrow> views b' f = views unbound_buffer f"
    by (auto simp: INT_MAX_def)
  have "views b' (Dry_int_aero_mmr 1 4) = None"
    using b'(3) unbound_field_example by (simp add: unbound_buffer_def)
  moreover have "views b' (Dry_int_aero_mmr 1 3) = Some \<lparr>data = 33 * 6, extent_0 = 2, extent_1 = 3\<rparr>"
  proof -
    have n: "bound_fields ! 33 = Dry_int_aero_mmr 1 3"
      by (simp add: bound_fields_def view_2d_mid_ptrs_given_def)
    have "(33::nat) < num_2d_mid" by (simp add: num_2d_mid_eq)
    with b'(2) have "views b' (bound_fields ! 33)
        = Some \<lparr>data = 33 * (nat 2 * nat 3), extent_0 = nat 2, extent_1 = nat 3\<rparr>" by blast
    then show ?thesis by (simp only: n) simp
  qed
  ultimately show ?thesis using b'(1) by (simp add: view_after_init_def)
qed

text \<open>
  Beyond the range of \<open>int\<close> the two functions part: for \<open>400000\<close> columns and
  \<open>72\<close> levels the sum in \<open>buffer_size\<close> overflows, while \<open>init_buffer\<close> binds
  \<open>17283200000\<close> bytes.
\<close>

lemma buffer_size_overflow_example:
  "buffer_size 8 400000 72 = Inl IntOverflow
   \<and> (\<exists>b'. init_buffer 8 400000 72 unbound_buffer = Inr (b', 17283200000))"
proof -
  have "buffer_size 8 400000 72 = Inl IntOverflow"
    by (rule buffer_size_overflow) (simp add: INT_MAX_def)
  moreover from init_buffer_layout [of 400000 72 8 unbound_buffer]
  have "\<exists>b'. init_buffer 8 400000 72 unbound_buffer = Inr (b', 17283200000)"
    by (auto simp: INT_MAX_def size_t_mul_def)
  ultimately show ?thesis by blast
qed

section \<open>Properties of the wet and dry conversions\<close>

lemma converted_view_single:
  "converted_view f qv w i {k} d = d(i := (d i)(k := f (w i k) (qv i k)))"
  by (auto simp: converted_view_def fun_eq_iff)

lemma converted_on_alloc [simp]:
  "converted_on S f qv src i K dst s = None \<longleftrightarrow> dst s = None"
  by (auto simp: converted_on_def split: option.splits)

lemma converted_on_empty [simp]: "converted_on {} f qv src i K dst = dst"
  by (simp add: converted_on_def fun_eq_iff)

lemma converted_view_twice:
  "converted_view f qv w i K2 (converted_view f qv w i K1 d) = converted_view f qv w i (K1 \<union> K2) d"
  by (auto simp: converted_view_def fun_eq_iff)

lemma converted_on_slots:
  "converted_on S2 f qv src i K (converted_on S1 f qv src i K dst)
     = converted_on (S1 \<union> S2) f qv src i K dst"
  by (auto simp: converted_on_def fun_eq_iff converted_view_twice split: option.splits)

lemma converted_on_levels:
  "converted_on S f qv src i K2 (converted_on S f qv src i K1 dst)
     = converted_on S f qv src i (K1 \<union> K2) dst"
  by (auto simp: converted_on_def fun_eq_iff converted_view_twice split: option.splits)

lemma convert_slot_result:
  assumes "src s \<noteq> None" "dst s \<noteq> None"
  shows "convert_slot f src s i k (qv i k) dst = Inr (converted_on {s} f qv src i {k} dst)"
proof -
  from assms obtain w d where wd: "src s = Some w" "dst s = Some d" by auto
  have "dst(s \<mapsto> d(i := (d i)(k := f (w i k) (qv i k)))) = converted_on {s} f qv src i {k} dst"
    using wd by (auto simp: converted_on_def converted_view_single fun_eq_iff)
  then show ?thesis using wd
    by (simp add: convert_slot_def read_2d_def write_2d_def)
qed

lemma convert_slot_if_allocated_result:
  assumes "dst s \<noteq> None \<longrightarrow> src s \<noteq> None"
  shows "convert_slot_if_allocated f src s i k (qv i k) dst
           = Inr (converted_on {s} f qv src i {k} dst)"
proof (cases "dst s = None")
  case True
  then have "converted_on {s} f qv src i {k} dst = dst"
    by (auto simp: converted_on_def fun_eq_iff split: option.splits)
  with True show ?thesis by (simp add: convert_slot_if_allocated_def)
next
  case False
  with assms show ?thesis
    by (simp add: convert_slot_if_allocated_def convert_slot_result)
qed

lemma species_loop_result:
  assumes "\<forall>a\<in>set as. (dst (Int_aero_mmr m a) \<noteq> None \<longrightarrow> src (Int_aero_mmr m a) \<noteq> None)
                     \<and> (dst (Cld_aero_mmr m a) \<noteq> None \<longrightarrow> src (Cld_aero_mmr m a) \<noteq> None)"
  shows "species_loop f src i k (qv i k) m as dst
           = Inr (converted_on (\<Union>a\<in>set as. {Int_aero_mmr m a, Cld_aero_mmr m a})
                    f qv src i {k} dst)"
  using assms
proof (induction as arbitrary: dst)
  case Nil
  then show ?case by simp
next
  case (Cons a as)
  let ?d1 = "converted_on {Int_aero_mmr m a} f qv src i {k} dst"
  let ?d2 = "converted_on {Cld_aero_mmr m a} f qv src i {k} ?d1"
  let ?R = "\<Union>a\<in>set as. {Int_aero_mmr m a, Cld_aero_mmr m a}"
  have s1: "convert_slot_if_allocated f src (Int_aero_mmr m a) i k (qv i k) dst = Inr ?d1"
    using Cons.prems by (intro convert_slot_if_allocated_result) simp
  have s2: "convert_slot_if_allocated f src (Cld_aero_mmr m a) i k (qv i k) ?d1 = Inr ?d2"
    using Cons.prems by (intro convert_slot_if_allocated_result) simp
  have pre: "\<forall>a\<in>set as. (?d2 (Int_aero_mmr m a) \<noteq> None \<longrightarrow> src (Int_aero_mmr m a) \<noteq> None)
                     \<and> (?d2 (Cld_aero_mmr m a) \<noteq> None \<longrightarrow> src (Cld_aero_mmr m a) \<noteq> None)"
    using Cons.prems by simp
  have "species_loop f src i k (qv i k) m (a # as) dst = Inr (converted_on ?R f qv src i {k} ?d2)"
    using s1 s2 Cons.IH [OF pre] by simp
  also have "converted_on ?R f qv src i {k} ?d2
               = converted_on (({Int_aero_mmr m a} \<union> {Cld_aero_mmr m a}) \<union> ?R) f qv src i {k} dst"
    by (simp only: converted_on_slots)
  also have "({Int_aero_mmr m a} \<union> {Cld_aero_mmr m a}) \<union> ?R
               = (\<Union>a\<in>set (a # as). {Int_aero_mmr m a, Cld_aero_mmr m a})"
    by auto
  finally show ?case .
qed

lemma modes_loop_result:
  assumes "\<forall>m\<in>set ms. src (Int_aero_nmr m) \<noteq> None \<and> dst (Int_aero_nmr m) \<noteq> None
                      \<and> (\<forall>s\<in>mode_slots m. dst s \<noteq> None \<longrightarrow> src s \<noteq> None)"
  shows "modes_loop f src i k (qv i k) ms dst
           = Inr (converted_on (\<Union>m\<in>set ms. mode_slots m) f qv src i {k} dst)"
  using assms
proof (induction ms arbitrary: dst)
  case Nil
  then show ?case by simp
next
  case (Cons m ms)
  let ?S = "\<Union>a\<in>set [0..<num_aero_species]. {Int_aero_mmr m a, Cld_aero_mmr m a}"
  let ?d1 = "converted_on {Int_aero_nmr m} f qv src i {k} dst"
  let ?d2 = "converted_on {Cld_aero_nmr m} f qv src i {k} ?d1"
  let ?d3 = "converted_on ?S f qv src i {k} ?d2"
  let ?R = "\<Union>m\<in>set ms. mode_slots m"
  from Cons.prems have m: "src (Int_aero_nmr m) \<noteq> None" "dst (Int_aero_nmr m) \<noteq> None"
      "\<forall>s\<in>mode_slots m. dst s \<noteq> None \<longrightarrow> src s \<noteq> None" by simp_all
  have s1: "convert_slot f src (Int_aero_nmr m) i k (qv i k) dst = Inr ?d1"
    using m by (intro convert_slot_result)
  have s2: "convert_slot_if_allocated f src (Cld_aero_nmr m) i k (qv i k) ?d1 = Inr ?d2"
    using m(3) by (intro convert_slot_if_allocated_result) (simp add: mode_slots_def)
  have s3: "species_loop f src i k (qv i k) m [0..<num_aero_species] ?d2 = Inr ?d3"
    using m(3) by (intro species_loop_result) (simp add: mode_slots_def)
  have pre: "\<forall>m\<in>set ms. src (Int_aero_nmr m) \<noteq> None \<and> ?d3 (Int_aero_nmr m) \<noteq> None
                      \<and> (\<forall>s\<in>mode_slots m. ?d3 s \<noteq> None \<longrightarrow> src s \<noteq> None)"
    using Cons.prems by simp
  have "modes_loop f src i k (qv i k) (m # ms) dst = Inr (converted_on ?R f qv src i {k} ?d3)"
    using s1 s2 s3 Cons.IH [OF pre] by simp
  also have "converted_on ?R f qv src i {k} ?d3
               = converted_on ((({Int_aero_nmr m} \<union> {Cld_aero_nmr m}) \<union> ?S) \<union> ?R)
                   f qv src i {k} dst"
    by (simp only: converted_on_slots)
  also have "(({Int_aero_nmr m} \<union> {Cld_aero_nmr m}) \<union> ?S) \<union> ?R
               = (\<Union>m\<in>set (m # ms). mode_slots m)"
    by (auto simp: mode_slots_def)
  finally show ?case .
qed

lemma gases_loop_result:
  assumes "\<forall>g\<in>set gs. src (Gas_mmr g) \<noteq> None \<and> dst (Gas_mmr g) \<noteq> None"
  shows "gases_loop f src i k (qv i k) gs dst
           = Inr (converted_on (\<Union>g\<in>set gs. {Gas_mmr g}) f qv src i {k} dst)"
  using assms
proof (induction gs arbitrary: dst)
  case Nil
  then show ?case by simp
next
  case (Cons g gs)
  let ?d1 = "converted_on {Gas_mmr g} f qv src i {k} dst"
  let ?R = "\<Union>g\<in>set gs. {Gas_mmr g}"
  have s1: "convert_slot f src (Gas_mmr g) i k (qv i k) dst = Inr ?d1"
    using Cons.prems by (intro convert_slot_result) simp_all
  have pre: "\<forall>g\<in>set gs. src (Gas_mmr g) \<noteq> None \<and> ?d1 (Gas_mmr g) \<noteq> None"
    using Cons.prems by simp
  have "gases_loop f src i k (qv i k) (g # gs) dst = Inr (converted_on ?R f qv src i {k} ?d1)"
    using s1 Cons.IH [OF pre] by simp
  also have "converted_on ?R f qv src i {k} ?d1 = converted_on ({Gas_mmr g} \<union> ?R) f qv src i {k} dst"
    by (simp only: converted_on_slots)
  also have "{Gas_mmr g} \<union> ?R = (\<Union>g\<in>set (g # gs). {Gas_mmr g})" by auto
  finally show ?case .
qed


lemma visited_slots_eq:
  "visited_slots = (\<Union>m\<in>set [0..<num_aero_modes]. mode_slots m)
                     \<union> (\<Union>g\<in>set [0..<num_aero_gases]. {Gas_mmr g})"
  unfolding visited_slots_def mode_slots_def by (simp add: lessThan_atLeast0)

lemma mode_slots_visited: "m < num_aero_modes \<Longrightarrow> mode_slots m \<subseteq> visited_slots"
  unfolding visited_slots_eq by auto

lemma populated_alike_converted:
  "populated_alike src dst \<Longrightarrow> populated_alike src (converted_on S f qv src' i K dst)"
  by (simp add: populated_alike_def)

lemma populated_alike_sym: "populated_alike s t \<Longrightarrow> populated_alike t s"
  by (auto simp: populated_alike_def)


lemma populated_alike_modes:
  assumes "populated_alike src dst" "m < num_aero_modes"
  shows "src (Int_aero_nmr m) \<noteq> None" "dst (Int_aero_nmr m) \<noteq> None"
    "\<forall>s\<in>mode_slots m. dst s \<noteq> None \<longrightarrow> src s \<noteq> None"
proof -
  show "src (Int_aero_nmr m) \<noteq> None" "dst (Int_aero_nmr m) \<noteq> None"
    using assms by (simp_all add: populated_alike_def)
  have eq: "\<forall>x\<in>visited_slots. src x = None \<longleftrightarrow> dst x = None"
    using assms(1) by (simp add: populated_alike_def)
  show "\<forall>s\<in>mode_slots m. dst s \<noteq> None \<longrightarrow> src s \<noteq> None"
  proof (intro ballI impI)
    fix s assume s: "s \<in> mode_slots m" and d: "dst s \<noteq> None"
    from mode_slots_visited [OF assms(2)] s have "s \<in> visited_slots" by (rule subsetD)
    with eq have "src s = None \<longleftrightarrow> dst s = None" by (rule bspec)
    with d show "src s \<noteq> None" by simp
  qed
qed


lemma aero_level_result:
  assumes "populated_alike src dst"
  shows "aero_level f (Some qv) src i k dst = Inr (converted_on visited_slots f qv src i {k} dst)"
proof -
  let ?M = "\<Union>m\<in>set [0..<num_aero_modes]. mode_slots m"
  let ?G = "\<Union>g\<in>set [0..<num_aero_gases]. {Gas_mmr g}"
  let ?d1 = "converted_on ?M f qv src i {k} dst"
  have modes: "\<forall>m\<in>set [0..<num_aero_modes]. src (Int_aero_nmr m) \<noteq> None \<and> dst (Int_aero_nmr m) \<noteq> None
                      \<and> (\<forall>s\<in>mode_slots m. dst s \<noteq> None \<longrightarrow> src s \<noteq> None)"
    using populated_alike_modes [OF assms] by simp
  have gases: "\<forall>g\<in>set [0..<num_aero_gases]. src (Gas_mmr g) \<noteq> None \<and> ?d1 (Gas_mmr g) \<noteq> None"
    using assms unfolding populated_alike_def by simp
  have m: "modes_loop f src i k (qv i k) [0..<num_aero_modes] dst = Inr ?d1"
    using modes by (rule modes_loop_result)
  have g: "gases_loop f src i k (qv i k) [0..<num_aero_gases] ?d1
             = Inr (converted_on ?G f qv src i {k} ?d1)"
    using gases by (rule gases_loop_result)
  have "aero_level f (Some qv) src i k dst = Inr (converted_on ?G f qv src i {k} ?d1)"
    unfolding aero_level_def read_2d_def by (simp only: option.case bind_res_Inr m g)
  also have "converted_on ?G f qv src i {k} ?d1 = converted_on visited_slots f qv src i {k} dst"
    by (simp only: converted_on_slots visited_slots_eq)
  finally show ?thesis .
qed

lemma aero_levels_result:
  assumes "populated_alike src dst"
  shows "aero_levels f (Some qv) src i ks dst
           = Inr (converted_on visited_slots f qv src i (set ks) dst)"
  using assms
proof (induction ks arbitrary: dst)
  case Nil
  have "converted_on visited_slots f qv src i {} dst = dst"
    by (auto simp: converted_on_def converted_view_def fun_eq_iff split: option.splits)
  then show ?case by simp
next
  case (Cons k ks)
  let ?d1 = "converted_on visited_slots f qv src i {k} dst"
  have l: "aero_level f (Some qv) src i k dst = Inr ?d1"
    using Cons.prems by (rule aero_level_result)
  have r: "aero_levels f (Some qv) src i ks ?d1
             = Inr (converted_on visited_slots f qv src i (set ks) ?d1)"
    using Cons.prems by (intro Cons.IH populated_alike_converted)
  have "aero_levels f (Some qv) src i (k # ks) dst
          = Inr (converted_on visited_slots f qv src i (set ks) ?d1)"
    by (simp only: aero_levels.simps l r bind_res_Inr)
  also have "converted_on visited_slots f qv src i (set ks) ?d1
               = converted_on visited_slots f qv src i ({k} \<union> set ks) dst"
    by (simp only: converted_on_levels)
  finally show ?case by simp
qed


lemma dry_atm_level_eq:
  assumes "wet_qv wet_atm = Some qw" "wet_qc wet_atm = Some wc" "wet_nc wet_atm = Some wn"
    "wet_qi wet_atm = Some wi" "wet_ni wet_atm = Some wj"
    "dry_qv dry_atm = Some dq" "dry_qc dry_atm = Some dc" "dry_nc dry_atm = Some dn"
    "dry_qi dry_atm = Some di" "dry_ni dry_atm = Some dj"
  shows "dry_atm_level wet_atm i k dry_atm = Inr (dry_atm\<lparr>
            dry_qv := Some (converted_view calculate_drymmr_from_wetmmr qw qw i {k} dq),
            dry_qc := Some (converted_view calculate_drymmr_from_wetmmr qw wc i {k} dc),
            dry_nc := Some (converted_view calculate_drymmr_from_wetmmr qw wn i {k} dn),
            dry_qi := Some (converted_view calculate_drymmr_from_wetmmr qw wi i {k} di),
            dry_ni := Some (converted_view calculate_drymmr_from_wetmmr qw wj i {k} dj)\<rparr>)"
  unfolding dry_atm_level_def read_2d_def write_2d_def converted_view_single assms
  by (simp only: option.case bind_res_Inr)


lemma dry_atm_level_result:
  assumes "wet_qv wet_atm = Some qw" "wet_qc wet_atm \<noteq> None" "wet_nc wet_atm \<noteq> None"
    "wet_qi wet_atm \<noteq> None" "wet_ni wet_atm \<noteq> None"
    "dry_qv dry_atm = Some dq" "dry_qc dry_atm \<noteq> None" "dry_nc dry_atm \<noteq> None"
    "dry_qi dry_atm \<noteq> None" "dry_ni dry_atm \<noteq> None"
  shows "\<exists>d'. dry_atm_level wet_atm i k dry_atm = Inr d'
            \<and> dry_qv d' = Some (converted_view calculate_drymmr_from_wetmmr qw qw i {k} dq)
            \<and> dry_qc d' \<noteq> None \<and> dry_nc d' \<noteq> None \<and> dry_qi d' \<noteq> None \<and> dry_ni d' \<noteq> None"
proof -
  from assms(2-5) obtain wc wn wi wj where w:
    "wet_qc wet_atm = Some wc" "wet_nc wet_atm = Some wn" "wet_qi wet_atm = Some wi"
    "wet_ni wet_atm = Some wj" by auto
  from assms(7-10) obtain dc dn di dj where d:
    "dry_qc dry_atm = Some dc" "dry_nc dry_atm = Some dn"
    "dry_qi dry_atm = Some di" "dry_ni dry_atm = Some dj" by auto
  show ?thesis
    unfolding dry_atm_level_eq [OF assms(1) w assms(6) d] by simp
qed

lemma dry_atm_levels_result:
  assumes "wet_qv wet_atm = Some qw" "wet_qc wet_atm \<noteq> None" "wet_nc wet_atm \<noteq> None"
    "wet_qi wet_atm \<noteq> None" "wet_ni wet_atm \<noteq> None"
    "dry_qv dry_atm = Some dq" "dry_qc dry_atm \<noteq> None" "dry_nc dry_atm \<noteq> None"
    "dry_qi dry_atm \<noteq> None" "dry_ni dry_atm \<noteq> None"
  shows "\<exists>d'. dry_atm_levels wet_atm i ks dry_atm = Inr d'
            \<and> dry_qv d' = Some (converted_view calculate_drymmr_from_wetmmr qw qw i (set ks) dq)
            \<and> dry_qc d' \<noteq> None \<and> dry_nc d' \<noteq> None \<and> dry_qi d' \<noteq> None \<and> dry_ni d' \<noteq> None"
  using assms(6-10)
proof (induction ks arbitrary: dry_atm dq)
  case Nil
  have "converted_view calculate_drymmr_from_wetmmr qw qw i {} dq = dq"
    by (simp add: converted_view_def)
  with Nil show ?case by simp
next
  case (Cons k ks)
  let ?q1 = "converted_view calculate_drymmr_from_wetmmr qw qw i {k} dq"
  from dry_atm_level_result [OF assms(1-5) Cons.prems, of i k]
  obtain d1 where d1: "dry_atm_level wet_atm i k dry_atm = Inr d1" "dry_qv d1 = Some ?q1"
      "dry_qc d1 \<noteq> None" "dry_nc d1 \<noteq> None" "dry_qi d1 \<noteq> None" "dry_ni d1 \<noteq> None"
    by (elim exE conjE)
  from Cons.IH [OF d1(2-6)]
  obtain d' where d': "dry_atm_levels wet_atm i ks d1 = Inr d'"
      "dry_qv d' = Some (converted_view calculate_drymmr_from_wetmmr qw qw i (set ks) ?q1)"
      "dry_qc d' \<noteq> None" "dry_nc d' \<noteq> None" "dry_qi d' \<noteq> None" "dry_ni d' \<noteq> None"
    by (elim exE conjE)
  have run: "dry_atm_levels wet_atm i (k # ks) dry_atm = Inr d'"
    by (simp only: dry_atm_levels.simps d1(1) d'(1) bind_res_Inr)
  have "converted_view calculate_drymmr_from_wetmmr qw qw i (set ks) ?q1
          = converted_view calculate_drymmr_from_wetmmr qw qw i (set (k # ks)) dq"
    by (simp add: converted_view_twice)
  with d'(2) have q: "dry_qv d'
          = Some (converted_view calculate_drymmr_from_wetmmr qw qw i (set (k # ks)) dq)"
    by simp
  from run q d'(3-6) show ?case by blast
qed

lemma wet_of_dry:
  assumes "qv \<noteq> 1"
  shows "calculate_wetmmr_from_drymmr (calculate_drymmr_from_wetmmr w qv)
           (calculate_drymmr_from_wetmmr qv qv) = w"
proof -
  from assms have nz: "1 - qv \<noteq> 0" by simp
  have "1 + qv / (1 - qv) = 1 / (1 - qv)" using nz by (simp add: field_simps)
  then show ?thesis using nz
    by (simp add: calculate_wetmmr_from_drymmr_def calculate_drymmr_from_wetmmr_def)
qed




lemma populated_alike_converted_left:
  "populated_alike s t \<Longrightarrow> populated_alike (converted_on S f qv src' i K s) t"
  by (simp add: populated_alike_def)

lemma round_trip_view:
  assumes "\<forall>k\<in>K. qw i k \<noteq> 1"
  shows "converted_view calculate_wetmmr_from_drymmr
           (converted_view calculate_drymmr_from_wetmmr qw qw i K dq)
           (converted_view calculate_drymmr_from_wetmmr qw w i K d) i K out
         = (\<lambda>i' k'. if i' = i \<and> k' \<in> K then w i k' else out i' k')"
  using assms by (auto simp: converted_view_def fun_eq_iff wet_of_dry)

lemma round_trip_slot:
  assumes qv: "\<forall>k\<in>K. qw i k \<noteq> 1"
    and a1: "populated_alike wet_aero dry_aero" and a2: "populated_alike dry_aero wet_out"
    and s: "s \<in> visited_slots" and w: "wet_aero s = Some w"
  shows "\<exists>out. wet_out s = Some out \<and>
           converted_on visited_slots calculate_wetmmr_from_drymmr
             (converted_view calculate_drymmr_from_wetmmr qw qw i K dq)
             (converted_on visited_slots calculate_drymmr_from_wetmmr qw wet_aero i K dry_aero)
             i K wet_out s
           = Some (\<lambda>i' k'. if i' = i \<and> k' \<in> K then w i k' else out i' k')"
proof -
  from a1 s w obtain d where d: "dry_aero s = Some d"
    unfolding populated_alike_def by (metis option.exhaust option.distinct(1))
  from a2 s d obtain out where out: "wet_out s = Some out"
    unfolding populated_alike_def by (metis option.exhaust option.distinct(1))
  show ?thesis
    using s w d out by (simp add: converted_on_def round_trip_view [where qw = qw and i = i and K = K, OF qv])
qed

text \<open>
  Claim C2. Let the wet and the dry atmosphere have their five mixing-ratio views
  allocated, let the wet and the dry aerosol state be populated alike, and let the wet
  water vapour mixing ratio differ from one at every level of the column, so that the
  quotient \<open>wet / (1 - qv)\<close> exists. Then the dry conversion of the atmosphere, the dry
  conversion of the aerosols and the wet conversion of the result, with the dry water
  vapour of the first as factor, all return; every visited view that is allocated holds
  at every level of the column the wet value the round trip started from, in real
  arithmetic; and writing into the state the round trip started from leaves that state
  as it was.
\<close>

theorem dry_wet_round_trip:
  assumes col: "column_index = league_rank" "0 \<le> column_index"
    and wet: "wet_qv wet_atm = Some qw" "wet_qc wet_atm \<noteq> None" "wet_nc wet_atm \<noteq> None"
      "wet_qi wet_atm \<noteq> None" "wet_ni wet_atm \<noteq> None"
    and dry: "dry_qv dry_atm \<noteq> None" "dry_qc dry_atm \<noteq> None" "dry_nc dry_atm \<noteq> None"
      "dry_qi dry_atm \<noteq> None" "dry_ni dry_atm \<noteq> None"
    and alike: "populated_alike wet_aero dry_aero" "populated_alike dry_aero wet_out"
    and qv: "\<forall>k<nlev. qw (nat column_index) k \<noteq> 1"
  shows "\<exists>dry_atm' dry_aero' wet_aero'.
           compute_dry_mixing_ratios_atm nlev league_rank wet_atm dry_atm column_index
             = Inr dry_atm'
         \<and> compute_dry_mixing_ratios nlev league_rank wet_atm wet_aero dry_aero column_index
             = Inr dry_aero'
         \<and> compute_wet_mixing_ratios nlev league_rank dry_atm' dry_aero' wet_out column_index
             = Inr wet_aero'
         \<and> (\<forall>s\<in>visited_slots. \<forall>w. wet_aero s = Some w \<longrightarrow>
               (\<exists>w'. wet_aero' s = Some w'
                  \<and> (\<forall>k<nlev. w' (nat column_index) k = w (nat column_index) k)))
         \<and> (wet_out = wet_aero \<longrightarrow> wet_aero' = wet_aero)"
proof -
  let ?i = "nat column_index"
  let ?K = "set [0..<nlev]"
  from dry(1) obtain dq where dq: "dry_qv dry_atm = Some dq" by auto
  let ?qd = "converted_view calculate_drymmr_from_wetmmr qw qw ?i ?K dq"
  let ?dry = "converted_on visited_slots calculate_drymmr_from_wetmmr qw wet_aero ?i ?K dry_aero"
  let ?wet = "converted_on visited_slots calculate_wetmmr_from_drymmr ?qd ?dry ?i ?K wet_out"
  from dry_atm_levels_result [OF wet dq dry(2-5), of ?i "[0..<nlev]"]
  obtain d' where d': "dry_atm_levels wet_atm ?i [0..<nlev] dry_atm = Inr d'"
      "dry_qv d' = Some ?qd"
    by (elim exE conjE)
  have qvK: "\<forall>k\<in>?K. qw ?i k \<noteq> 1" using qv by simp
  have r1: "compute_dry_mixing_ratios_atm nlev league_rank wet_atm dry_atm column_index = Inr d'"
    using col d'(1) by (simp add: compute_dry_mixing_ratios_atm_def)
  have r2: "compute_dry_mixing_ratios nlev league_rank wet_atm wet_aero dry_aero column_index
              = Inr ?dry"
    using col by (simp add: compute_dry_mixing_ratios_def wet(1) aero_levels_result [OF alike(1)])
  have r3: "compute_wet_mixing_ratios nlev league_rank d' ?dry wet_out column_index = Inr ?wet"
    using col
    by (simp add: compute_wet_mixing_ratios_def d'(2)
          aero_levels_result [OF populated_alike_converted_left [OF alike(2)]])
  have r4: "\<forall>s\<in>visited_slots. \<forall>w. wet_aero s = Some w \<longrightarrow>
               (\<exists>w'. ?wet s = Some w' \<and> (\<forall>k<nlev. w' ?i k = w ?i k))"
  proof (intro ballI allI impI)
    fix s w assume s: "s \<in> visited_slots" and w: "wet_aero s = Some w"
    from round_trip_slot [where qw = qw and i = "?i" and K = "?K" and dq = dq, OF qvK alike s w]
    obtain out where "?wet s = Some (\<lambda>i' k'. if i' = ?i \<and> k' \<in> ?K then w ?i k' else out i' k')"
      by (elim exE conjE)
    then show "\<exists>w'. ?wet s = Some w' \<and> (\<forall>k<nlev. w' ?i k = w ?i k)" by simp
  qed
  have r5: "wet_out = wet_aero \<longrightarrow> ?wet = wet_aero"
  proof
    assume eq: "wet_out = wet_aero"
    show "?wet = wet_aero"
    proof
      fix s
      show "?wet s = wet_aero s"
      proof (cases "s \<in> visited_slots \<and> wet_aero s \<noteq> None")
        case True
        then obtain w where s: "s \<in> visited_slots" and w: "wet_aero s = Some w" by auto
        from round_trip_slot [where qw = qw and i = "?i" and K = "?K" and dq = dq, OF qvK alike s w]
        obtain out where o: "wet_out s = Some out"
          "?wet s = Some (\<lambda>i' k'. if i' = ?i \<and> k' \<in> ?K then w ?i k' else out i' k')"
          by (elim exE conjE)
        from o(1) eq w have "out = w" by simp
        then have "(\<lambda>i' k'. if i' = ?i \<and> k' \<in> ?K then w ?i k' else out i' k') = w"
          by (auto simp: fun_eq_iff)
        with o(2) w show ?thesis by simp
      next
        case False
        then show ?thesis using eq
          by (auto simp: converted_on_def split: option.splits)
      qed
    qed
  qed
  from r1 r2 r3 r4 r5 show ?thesis by blast
qed


text \<open>The round trip on the example, and a value of its dry state.\<close>

lemma example_aero_alike:
  "populated_alike example_wet_aero example_dry_aero"
  "populated_alike example_dry_aero example_wet_aero"
proof -
  have "example_wet_aero x = None \<longleftrightarrow> example_dry_aero x = None" for x
    by (cases x) simp_all
  then show "populated_alike example_wet_aero example_dry_aero"
    "populated_alike example_dry_aero example_wet_aero"
    by (simp_all add: populated_alike_def)
qed

lemma example_dry_value:
  "\<exists>dry_aero' v. compute_dry_mixing_ratios 2 0 example_wet_atm example_wet_aero example_dry_aero 0
           = Inr dry_aero'
       \<and> dry_aero' (Int_aero_mmr 0 0) = Some v \<and> v 0 0 = 6 \<and> v 0 1 = 6 \<and> v 0 2 = 0
       \<and> dry_aero' (Cld_aero_mmr 0 0) = None"
proof -
  have "Int_aero_mmr 0 0 \<in> visited_slots" "Cld_aero_mmr 0 0 \<in> visited_slots"
    by (simp_all add: visited_slots_def num_aero_modes_def num_aero_species_def)
  then show ?thesis
    by (simp add: compute_dry_mixing_ratios_def example_wet_atm_def
          aero_levels_result [OF example_aero_alike(1)] converted_on_def converted_view_def
          calculate_drymmr_from_wetmmr_def)
qed

theorem dry_wet_round_trip_witness:
  "\<exists>dry_atm' dry_aero'.
      compute_dry_mixing_ratios_atm 2 0 example_wet_atm example_dry_atm 0 = Inr dry_atm'
    \<and> compute_dry_mixing_ratios 2 0 example_wet_atm example_wet_aero example_dry_aero 0
        = Inr dry_aero'
    \<and> compute_wet_mixing_ratios 2 0 dry_atm' dry_aero' example_wet_aero 0
        = Inr example_wet_aero"
proof -
  have qv: "\<forall>k<2. (\<lambda>i k. 1 / 2 :: real) (nat 0) k \<noteq> 1" by simp
  from dry_wet_round_trip [where column_index = 0 and league_rank = 0
      and wet_atm = example_wet_atm and qw = "\<lambda>i k. 1 / 2" and dry_atm = example_dry_atm
      and wet_aero = example_wet_aero and dry_aero = example_dry_aero
      and wet_out = example_wet_aero and nlev = 2, OF _ _ _ _ _ _ _ _ _ _ _ _ example_aero_alike qv]
  show ?thesis
    by (simp add: example_wet_atm_def example_dry_atm_def)
qed

section \<open>Properties of the work-array transfers\<close>


lemma cnst_tables_length:
  "length mode_for_cnst = gas_pcnst" "length aero_for_cnst = gas_pcnst"
  "length gas_for_cnst = gas_pcnst"
  by (simp_all add: mode_for_cnst_def aero_for_cnst_def gas_for_cnst_def gas_pcnst_def)

lemma cnst_tables_at:
  assumes "i < gas_pcnst"
  shows "view_at mode_for_cnst (int i) = Inr (mode_for_cnst ! i)"
    "view_at aero_for_cnst (int i) = Inr (aero_for_cnst ! i)"
    "view_at gas_for_cnst (int i) = Inr (gas_for_cnst ! i)"
  using assms by (simp_all add: view_at_def cnst_tables_length)

lemma cnst_modes:
  "list_all (\<lambda>i. gas_for_cnst ! i = NoGas \<longrightarrow> mode_for_cnst ! i \<noteq> NoMode) [0..<gas_pcnst]"
  by code_simp

lemma cnst_mode_of:
  assumes "i < gas_pcnst" "gas_for_cnst ! i = NoGas"
  shows "mode_for_cnst ! i \<noteq> NoMode"
proof -
  have "i \<in> set [0..<gas_pcnst]" using assms(1) by simp
  with cnst_modes assms(2) show ?thesis unfolding list_all_iff by blast
qed

lemma GasId_int_extent: "g \<noteq> NoGas \<Longrightarrow> 0 \<le> GasId_int g \<and> GasId_int g < int num_aero_gases"
  by (cases g) (simp_all add: num_aero_gases_def)

lemma ModeIndex_int_extent:
  "m \<noteq> NoMode \<Longrightarrow> 0 \<le> ModeIndex_int m \<and> ModeIndex_int m < int num_aero_modes"
  by (cases m) (simp_all add: num_aero_modes_def)

lemma aerosol_index_extent:
  assumes "aerosol_indices_in_extent aifm" "i < gas_pcnst" "aero_for_cnst ! i \<noteq> NoAero"
  shows "0 \<le> aifm (mode_for_cnst ! i) (aero_for_cnst ! i)"
    "aifm (mode_for_cnst ! i) (aero_for_cnst ! i) < int num_aero_species"
proof -
  have "i \<in> set [0..<gas_pcnst]" using assms(2) by simp
  with assms(1,3) have "0 \<le> aifm (mode_for_cnst ! i) (aero_for_cnst ! i)
      \<and> aifm (mode_for_cnst ! i) (aero_for_cnst ! i) < int num_aero_species"
    unfolding aerosol_indices_in_extent_def list_all_iff by blast
  then show "0 \<le> aifm (mode_for_cnst ! i) (aero_for_cnst ! i)"
    "aifm (mode_for_cnst ! i) (aero_for_cnst ! i) < int num_aero_species" by simp_all
qed

lemma cnst_slot_in_extent:
  assumes "aerosol_indices_in_extent aifm" "i < gas_pcnst"
  shows "slot_in_extent (cnst_slot aifm i)" "slot_in_extent (cnst_slot_cw aifm i)"
  using GasId_int_extent [of "gas_for_cnst ! i"]
    ModeIndex_int_extent [OF cnst_mode_of [OF assms(2)]]
    aerosol_index_extent [OF assms]
  by (auto simp: cnst_slot_def cnst_slot_cw_def)

lemma fully_populated_allocated:
  assumes "fully_populated progs" "slot_in_extent s"
  shows "progs s \<noteq> None"
proof -
  have nat_int: "\<And>x n. 0 \<le> x \<Longrightarrow> x < int n \<Longrightarrow> \<exists>j<n. x = int j"
    by (metis nat_less_iff int_nat_eq)
  show ?thesis
  proof (cases s)
    case (N_mode_i m)
    with assms(2) obtain j where "j < num_aero_modes" "m = int j" using nat_int by auto
    with assms(1) N_mode_i show ?thesis by (simp add: fully_populated_def)
  next
    case (N_mode_c m)
    with assms(2) obtain j where "j < num_aero_modes" "m = int j" using nat_int by auto
    with assms(1) N_mode_c show ?thesis by (simp add: fully_populated_def)
  next
    case (Q_aero_i m a)
    with assms(2) obtain j where j: "j < num_aero_modes" "m = int j" using nat_int by auto
    from Q_aero_i assms(2) obtain b where b: "b < num_aero_species" "a = int b"
      using nat_int by auto
    with assms(1) Q_aero_i j show ?thesis by (simp add: fully_populated_def)
  next
    case (Q_aero_c m a)
    with assms(2) obtain j where j: "j < num_aero_modes" "m = int j" using nat_int by auto
    from Q_aero_c assms(2) obtain b where b: "b < num_aero_species" "a = int b"
      using nat_int by auto
    with assms(1) Q_aero_c j show ?thesis by (simp add: fully_populated_def)
  next
    case (Q_gas g)
    with assms(2) obtain j where "j < num_aero_gases" "g = int j" using nat_int by auto
    with assms(1) Q_gas show ?thesis by (simp add: fully_populated_def)
  qed
qed

lemma progs_read_result:
  assumes "fully_populated progs" "slot_in_extent s"
  shows "progs_read progs s k = Inr (level_value progs s k)"
  using fully_populated_allocated [OF assms] assms(2)
  by (auto simp: progs_read_def level_value_def)


lemma cnst_loop_append:
  "cnst_loop body (xs @ ys) s = bind_res (cnst_loop body xs s) (cnst_loop body ys)"
  by (induction xs arbitrary: s) (auto simp: bind_res_def split: sum.splits)

lemma set_pair_result:
  assumes "i < length q" "i < length qq"
  shows "set_pair (int i) x y (q, qq) = Inr (q[i := x], qq[i := y])"
  using assms by (simp add: set_pair_def view_set_def)

lemma prognostics_to_work_arrays_at_slots:
  assumes "i < gas_pcnst"
  shows "prognostics_to_work_arrays_at aifm progs k (int i) qs
           = bind_res (progs_read progs (cnst_slot aifm i) k) (\<lambda>x.
             bind_res (progs_read progs (cnst_slot_cw aifm i) k) (\<lambda>y. set_pair (int i) x y qs))"
  by (simp add: prognostics_to_work_arrays_at_def cnst_tables_at [OF assms]
        cnst_slot_def cnst_slot_cw_def Let_def)

lemma prognostics_to_work_arrays_at_result:
  assumes "aerosol_indices_in_extent aifm" "fully_populated progs" "i < gas_pcnst"
    "length q = gas_pcnst" "length qq = gas_pcnst"
  shows "prognostics_to_work_arrays_at aifm progs k (int i) (q, qq)
           = Inr (q[i := level_value progs (cnst_slot aifm i) k],
                  qq[i := level_value progs (cnst_slot_cw aifm i) k])"
  using assms(3-5)
  by (simp add: prognostics_to_work_arrays_at_slots
        progs_read_result [OF assms(2) cnst_slot_in_extent(1) [OF assms(1,3)]]
        progs_read_result [OF assms(2) cnst_slot_in_extent(2) [OF assms(1,3)]]
        set_pair_result)

lemma convert_work_arrays_at_result:
  assumes "i < gas_pcnst" "length src = gas_pcnst" "length srccw = gas_pcnst"
    "length q = gas_pcnst" "length qq = gas_pcnst"
  shows "convert_work_arrays_at conv aifm gmw amw src srccw (int i) (q, qq)
           = Inr (q[i := cnst_convert conv aifm gmw amw i (src ! i)],
                  qq[i := cnst_convert conv aifm gmw amw i (srccw ! i)])"
proof -
  have rd: "view_at src (int i) = Inr (src ! i)" "view_at srccw (int i) = Inr (srccw ! i)"
    using assms(1-3) by (simp_all add: view_at_def)
  show ?thesis
    using assms(1,4,5)
    by (simp add: convert_work_arrays_at_def cnst_tables_at [OF assms(1)] cnst_convert_def
          Let_def rd set_pair_result)
qed

lemma cnst_loop_arrays:
  assumes step: "\<And>i q qq. i < n \<Longrightarrow> length q = n \<Longrightarrow> length qq = n
                   \<Longrightarrow> body (int i) (q, qq) = Inr (q[i := f i], qq[i := g i])"
    and len: "length q = n" "length qq = n" and m: "m \<le> n"
  shows "cnst_loop body (map int [0..<m]) (q, qq)
           = Inr (map (\<lambda>j. if j < m then f j else q ! j) [0..<n],
                  map (\<lambda>j. if j < m then g j else qq ! j) [0..<n])"
  using m
proof (induction m)
  case 0
  have "map (\<lambda>j. q ! j) [0..<n] = q" "map (\<lambda>j. qq ! j) [0..<n] = qq"
    using len map_nth [of q] map_nth [of qq] by simp_all
  then show ?case by simp
next
  case (Suc m)
  let ?q = "map (\<lambda>j. if j < m then f j else q ! j) [0..<n]"
  let ?qq = "map (\<lambda>j. if j < m then g j else qq ! j) [0..<n]"
  from Suc.prems have mn: "m < n" by simp
  have pre: "cnst_loop body (map int [0..<m]) (q, qq) = Inr (?q, ?qq)"
    using Suc.IH mn by simp
  have st: "body (int m) (?q, ?qq) = Inr (?q[m := f m], ?qq[m := g m])"
    using mn by (intro step) simp_all
  have u1: "?q[m := f m] = map (\<lambda>j. if j < Suc m then f j else q ! j) [0..<n]"
    using mn by (intro nth_equalityI) (auto simp: nth_list_update less_Suc_eq)
  have u2: "?qq[m := g m] = map (\<lambda>j. if j < Suc m then g j else qq ! j) [0..<n]"
    using mn by (intro nth_equalityI) (auto simp: nth_list_update less_Suc_eq)
  have "cnst_loop body (map int [0..<Suc m]) (q, qq) = Inr (?q[m := f m], ?qq[m := g m])"
    by (simp add: cnst_loop_append pre st)
  then show ?case by (simp only: u1 u2)
qed

lemma cnst_loop_arrays_full:
  assumes step: "\<And>i q qq. i < n \<Longrightarrow> length q = n \<Longrightarrow> length qq = n
                   \<Longrightarrow> body (int i) (q, qq) = Inr (q[i := f i], qq[i := g i])"
    and len: "length q = n" "length qq = n"
  shows "cnst_loop body (map int [0..<n]) (q, qq) = Inr (map f [0..<n], map g [0..<n])"
proof -
  have "cnst_loop body (map int [0..<n]) (q, qq)
          = Inr (map (\<lambda>j. if j < n then f j else q ! j) [0..<n],
                 map (\<lambda>j. if j < n then g j else qq ! j) [0..<n])"
    using step len order_refl by (rule cnst_loop_arrays)
  moreover have "map (\<lambda>j. if j < n then f j else q ! j) [0..<n] = map f [0..<n]"
    "map (\<lambda>j. if j < n then g j else qq ! j) [0..<n] = map g [0..<n]"
    by simp_all
  ultimately show ?thesis by simp
qed

lemma transfer_prognostics_to_work_arrays_result:
  assumes "aerosol_indices_in_extent aifm" "fully_populated progs"
    "length q = gas_pcnst" "length qq = gas_pcnst"
  shows "transfer_prognostics_to_work_arrays aifm progs k q qq
           = Inr (map (\<lambda>i. level_value progs (cnst_slot aifm i) k) [0..<gas_pcnst],
                  map (\<lambda>i. level_value progs (cnst_slot_cw aifm i) k) [0..<gas_pcnst])"
  unfolding transfer_prognostics_to_work_arrays_def
  using assms(3,4)
  by (intro cnst_loop_arrays_full prognostics_to_work_arrays_at_result [OF assms(1,2)])

lemma convert_work_arrays_result:
  assumes "length src = gas_pcnst" "length srccw = gas_pcnst"
    "length q = gas_pcnst" "length qq = gas_pcnst"
  shows "cnst_loop (convert_work_arrays_at conv aifm gmw amw src srccw)
             (map int [0..<gas_pcnst]) (q, qq)
           = Inr (map (\<lambda>i. cnst_convert conv aifm gmw amw i (src ! i)) [0..<gas_pcnst],
                  map (\<lambda>i. cnst_convert conv aifm gmw amw i (srccw ! i)) [0..<gas_pcnst])"
  using assms(3,4)
  by (intro cnst_loop_arrays_full convert_work_arrays_at_result [OF _ assms(1,2)])


lemma overlay_alloc [simp]: "overlay S orig k progs s = None \<longleftrightarrow> progs s = None"
  by (auto simp: overlay_def split: option.splits)

lemma overlay_empty [simp]: "overlay {} orig k progs = progs"
  by (simp add: overlay_def fun_eq_iff)

lemma overlay_union:
  "overlay S2 orig k (overlay S1 orig k progs) = overlay (S1 \<union> S2) orig k progs"
  by (auto simp: overlay_def fun_eq_iff split: option.splits)

lemma overlay_self: "overlay S orig k orig = orig"
  by (auto simp: overlay_def fun_eq_iff split: option.splits)

lemma fully_populated_overlay:
  "fully_populated progs \<Longrightarrow> fully_populated (overlay S orig k progs)"
  by (simp add: fully_populated_def)

lemma progs_write_result:
  assumes "slot_in_extent s" "orig s \<noteq> None" "cur s \<noteq> None"
  shows "progs_write cur s k (level_value orig s k) = Inr (overlay {s} orig k cur)"
proof -
  from assms obtain v d where vd: "orig s = Some v" "cur s = Some d" by auto
  have "cur(s \<mapsto> d(k := v k)) = overlay {s} orig k cur"
    using vd by (auto simp: overlay_def fun_eq_iff)
  then show ?thesis using assms(1) vd by (simp add: progs_write_def level_value_def)
qed

lemma work_arrays_to_prognostics_at_slots:
  assumes "i < gas_pcnst"
  shows "work_arrays_to_prognostics_at aifm q qqcw k (int i) progs
           = (if gas_for_cnst ! i \<noteq> NoGas
              then bind_res (view_at q (int i)) (\<lambda>x. progs_write progs (cnst_slot aifm i) k x)
              else bind_res (view_at q (int i)) (\<lambda>x.
                   bind_res (progs_write progs (cnst_slot aifm i) k x) (\<lambda>progs1.
                   bind_res (view_at qqcw (int i)) (\<lambda>y.
                     progs_write progs1 (cnst_slot_cw aifm i) k y))))"
  by (simp add: work_arrays_to_prognostics_at_def cnst_tables_at [OF assms]
        cnst_slot_def cnst_slot_cw_def Let_def)

lemma work_arrays_to_prognostics_at_result:
  assumes idx: "aerosol_indices_in_extent aifm"
    and pop: "fully_populated orig" "fully_populated cur"
    and i: "i < gas_pcnst" and len: "length q = gas_pcnst" "length qqcw = gas_pcnst"
    and q: "q ! i = level_value orig (cnst_slot aifm i) k"
      "qqcw ! i = level_value orig (cnst_slot_cw aifm i) k"
  shows "work_arrays_to_prognostics_at aifm q qqcw k (int i) cur
           = Inr (overlay {cnst_slot aifm i, cnst_slot_cw aifm i} orig k cur)"
proof -
  let ?s = "cnst_slot aifm i" and ?c = "cnst_slot_cw aifm i"
  note ext = cnst_slot_in_extent [OF idx i]
  have rd: "view_at q (int i) = Inr (level_value orig ?s k)"
      "view_at qqcw (int i) = Inr (level_value orig ?c k)"
    using i len q by (simp_all add: view_at_def)
  have w1: "progs_write cur ?s k (level_value orig ?s k) = Inr (overlay {?s} orig k cur)"
    using ext(1) fully_populated_allocated [OF pop(1) ext(1)]
      fully_populated_allocated [OF pop(2) ext(1)] by (rule progs_write_result)
  have "overlay {?s} orig k cur ?c \<noteq> None"
    using fully_populated_allocated [OF pop(2) ext(2)] by simp
  with ext(2) fully_populated_allocated [OF pop(1) ext(2)]
  have w2: "progs_write (overlay {?s} orig k cur) ?c k (level_value orig ?c k)
              = Inr (overlay {?c} orig k (overlay {?s} orig k cur))"
    by (rule progs_write_result)
  show ?thesis
  proof (cases "gas_for_cnst ! i \<noteq> NoGas")
    case True
    then have "?c = ?s" by (simp add: cnst_slot_def cnst_slot_cw_def)
    with True show ?thesis
      by (simp add: work_arrays_to_prognostics_at_slots [OF i] rd w1)
  next
    case False
    have "{?s} \<union> {?c} = {?s, ?c}" by auto
    with False show ?thesis
      by (simp add: work_arrays_to_prognostics_at_slots [OF i] rd w1 w2 overlay_union)
  qed
qed

lemma work_arrays_to_prognostics_loop:
  assumes idx: "aerosol_indices_in_extent aifm"
    and pop: "fully_populated orig" "fully_populated cur"
    and len: "length q = gas_pcnst" "length qqcw = gas_pcnst"
    and q: "\<forall>i\<in>set is. i < gas_pcnst \<and> q ! i = level_value orig (cnst_slot aifm i) k
              \<and> qqcw ! i = level_value orig (cnst_slot_cw aifm i) k"
  shows "cnst_loop (work_arrays_to_prognostics_at aifm q qqcw k) (map int is) cur
           = Inr (overlay (\<Union>i\<in>set is. {cnst_slot aifm i, cnst_slot_cw aifm i}) orig k cur)"
  using pop(2) q
proof (induction "is" arbitrary: cur)
  case Nil
  then show ?case by simp
next
  case (Cons i rest)
  let ?S = "{cnst_slot aifm i, cnst_slot_cw aifm i}"
  let ?R = "\<Union>i\<in>set rest. {cnst_slot aifm i, cnst_slot_cw aifm i}"
  from Cons.prems(2) have i: "i < gas_pcnst" "q ! i = level_value orig (cnst_slot aifm i) k"
      "qqcw ! i = level_value orig (cnst_slot_cw aifm i) k" by simp_all
  have st: "work_arrays_to_prognostics_at aifm q qqcw k (int i) cur = Inr (overlay ?S orig k cur)"
    using idx pop(1) Cons.prems(1) i(1) len i(2,3) by (rule work_arrays_to_prognostics_at_result)
  have rest: "cnst_loop (work_arrays_to_prognostics_at aifm q qqcw k) (map int rest)
                 (overlay ?S orig k cur) = Inr (overlay ?R orig k (overlay ?S orig k cur))"
    using Cons.prems(2) by (intro Cons.IH fully_populated_overlay Cons.prems(1)) simp
  have "?S \<union> ?R = (\<Union>i\<in>set (i # rest). {cnst_slot aifm i, cnst_slot_cw aifm i})" by auto
  then show ?case by (simp add: st rest overlay_union)
qed


lemma cnst_gases:
  "list_all (\<lambda>g. gas_for_cnst ! g \<noteq> NoGas \<and> GasId_int (gas_for_cnst ! g) = int g)
     [0..<num_aero_gases]"
  by code_simp

lemma cnst_numbers:
  "list_all (\<lambda>m. [13, 18, 26, 30] ! m < gas_pcnst
               \<and> gas_for_cnst ! ([13, 18, 26, 30] ! m) = NoGas
               \<and> aero_for_cnst ! ([13, 18, 26, 30] ! m) = NoAero
               \<and> ModeIndex_int (mode_for_cnst ! ([13, 18, 26, 30] ! m)) = int m)
     [0..<num_aero_modes]"
  by code_simp

lemma cnst_aerosols:
  "list_all (\<lambda>i. aero_for_cnst ! i \<noteq> NoAero \<longrightarrow> gas_for_cnst ! i = NoGas) [0..<gas_pcnst]"
  by code_simp

lemma cnst_slot_gas:
  assumes "g < num_aero_gases"
  shows "g < gas_pcnst" "cnst_slot aifm g = Q_gas (int g)"
proof -
  show "g < gas_pcnst" using assms by (simp add: num_aero_gases_def gas_pcnst_def)
  have "g \<in> set [0..<num_aero_gases]" using assms by simp
  with cnst_gases have "gas_for_cnst ! g \<noteq> NoGas \<and> GasId_int (gas_for_cnst ! g) = int g"
    unfolding list_all_iff by blast
  then show "cnst_slot aifm g = Q_gas (int g)" by (simp add: cnst_slot_def)
qed

lemma cnst_slot_number:
  assumes "m < num_aero_modes"
  shows "\<exists>i<gas_pcnst. cnst_slot aifm i = N_mode_i (int m) \<and> cnst_slot_cw aifm i = N_mode_c (int m)"
proof -
  let ?i = "[13, 18, 26, 30] ! m"
  have "m \<in> set [0..<num_aero_modes]" using assms by simp
  with cnst_numbers have "?i < gas_pcnst \<and> gas_for_cnst ! ?i = NoGas
      \<and> aero_for_cnst ! ?i = NoAero \<and> ModeIndex_int (mode_for_cnst ! ?i) = int m"
    unfolding list_all_iff by blast
  then have "?i < gas_pcnst \<and> cnst_slot aifm ?i = N_mode_i (int m)
      \<and> cnst_slot_cw aifm ?i = N_mode_c (int m)"
    by (simp add: cnst_slot_def cnst_slot_cw_def)
  then show ?thesis by blast
qed

lemma cnst_slot_aerosol:
  assumes "i < gas_pcnst" "aero_for_cnst ! i \<noteq> NoAero"
  shows "cnst_slot aifm i = Q_aero_i (ModeIndex_int (mode_for_cnst ! i))
                              (aifm (mode_for_cnst ! i) (aero_for_cnst ! i))"
    "cnst_slot_cw aifm i = Q_aero_c (ModeIndex_int (mode_for_cnst ! i))
                              (aifm (mode_for_cnst ! i) (aero_for_cnst ! i))"
proof -
  have "i \<in> set [0..<gas_pcnst]" using assms(1) by simp
  with cnst_aerosols assms(2) have "gas_for_cnst ! i = NoGas"
    unfolding list_all_iff by blast
  with assms(2) show "cnst_slot aifm i = Q_aero_i (ModeIndex_int (mode_for_cnst ! i))
                              (aifm (mode_for_cnst ! i) (aero_for_cnst ! i))"
    "cnst_slot_cw aifm i = Q_aero_c (ModeIndex_int (mode_for_cnst ! i))
                              (aifm (mode_for_cnst ! i) (aero_for_cnst ! i))"
    by (simp_all add: cnst_slot_def cnst_slot_cw_def)
qed

lemma restored_at_overlay:
  assumes "fully_populated progs" "fully_populated progs_out" "slot_in_extent s" "s \<in> S"
  shows "restored_at k progs (overlay S progs k progs_out) s"
proof -
  from fully_populated_allocated [OF assms(1,3)] fully_populated_allocated [OF assms(2,3)]
  obtain v d where "progs s = Some v" "progs_out s = Some d" by auto
  with assms(4) show ?thesis by (simp add: restored_at_def overlay_def)
qed


text \<open>
  Claim C3. Let the Prognostics object be fully populated, and so the object written
  to; let every aerosol constituent have its aerosol index inside the extent, the work
  arrays have \<open>gas_pcnst\<close> entries, and the two conversions be inverse to each other at
  the molecular weights in use. Then \<open>transfer_prognostics_to_work_arrays\<close>,
  \<open>convert_work_arrays_to_vmr\<close>, \<open>convert_work_arrays_to_mmr\<close> and
  \<open>transfer_work_arrays_to_prognostics\<close>, one after the other, all return, and the
  object they leave holds at level \<open>k\<close> the original value of every gas, of the
  interstitial and the cloudborne mass of every aerosol constituent and of the
  interstitial and the cloudborne number of every mode, whatever the values are;
  written to the original object, they leave it as it was. The entries of the modal
  numbers pass through both conversions unchanged.
\<close>

theorem work_arrays_round_trip:
  assumes idx: "aerosol_indices_in_extent aerosol_index_for_mode"
    and inv: "inverse_conversions vmr_from_mmr mmr_from_vmr aerosol_index_for_mode
                gas_species_mw aero_species_mw"
    and pop: "fully_populated progs" "fully_populated progs_out"
    and len: "length q0 = gas_pcnst" "length qqcw0 = gas_pcnst"
      "length vmr0 = gas_pcnst" "length vmrcw0 = gas_pcnst"
      "length q1 = gas_pcnst" "length qqcw1 = gas_pcnst"
  shows "\<exists>q qqcw vmr vmrcw q' qqcw' progs'.
      transfer_prognostics_to_work_arrays aerosol_index_for_mode progs k q0 qqcw0 = Inr (q, qqcw)
    \<and> convert_work_arrays_to_vmr vmr_from_mmr aerosol_index_for_mode gas_species_mw
          aero_species_mw q qqcw vmr0 vmrcw0 = Inr (vmr, vmrcw)
    \<and> convert_work_arrays_to_mmr mmr_from_vmr aerosol_index_for_mode gas_species_mw
          aero_species_mw vmr vmrcw q1 qqcw1 = Inr (q', qqcw')
    \<and> transfer_work_arrays_to_prognostics aerosol_index_for_mode q' qqcw' progs_out k
          = Inr progs'
    \<and> (\<forall>g<num_aero_gases. restored_at k progs progs' (Q_gas (int g)))
    \<and> (\<forall>i<gas_pcnst. aero_for_cnst ! i \<noteq> NoAero \<longrightarrow>
          restored_at k progs progs'
            (Q_aero_i (ModeIndex_int (mode_for_cnst ! i))
               (aerosol_index_for_mode (mode_for_cnst ! i) (aero_for_cnst ! i)))
        \<and> restored_at k progs progs'
            (Q_aero_c (ModeIndex_int (mode_for_cnst ! i))
               (aerosol_index_for_mode (mode_for_cnst ! i) (aero_for_cnst ! i))))
    \<and> (\<forall>m<num_aero_modes. restored_at k progs progs' (N_mode_i (int m))
                           \<and> restored_at k progs progs' (N_mode_c (int m)))
    \<and> (progs_out = progs \<longrightarrow> progs' = progs)
    \<and> (\<forall>i<gas_pcnst. cnst_is_number i \<longrightarrow>
          vmr ! i = q ! i \<and> vmrcw ! i = qqcw ! i \<and> q' ! i = vmr ! i \<and> qqcw' ! i = vmrcw ! i)"
proof -
  let ?aifm = aerosol_index_for_mode
  let ?tv = "cnst_convert vmr_from_mmr ?aifm gas_species_mw aero_species_mw"
  let ?tm = "cnst_convert mmr_from_vmr ?aifm gas_species_mw aero_species_mw"
  let ?q = "map (\<lambda>i. level_value progs (cnst_slot ?aifm i) k) [0..<gas_pcnst]"
  let ?qqcw = "map (\<lambda>i. level_value progs (cnst_slot_cw ?aifm i) k) [0..<gas_pcnst]"
  let ?vmr = "map (\<lambda>i. ?tv i (?q ! i)) [0..<gas_pcnst]"
  let ?vmrcw = "map (\<lambda>i. ?tv i (?qqcw ! i)) [0..<gas_pcnst]"
  let ?q' = "map (\<lambda>i. ?tm i (?vmr ! i)) [0..<gas_pcnst]"
  let ?qqcw' = "map (\<lambda>i. ?tm i (?vmrcw ! i)) [0..<gas_pcnst]"
  let ?S = "\<Union>i\<in>set [0..<gas_pcnst]. {cnst_slot ?aifm i, cnst_slot_cw ?aifm i}"
  let ?progs' = "overlay ?S progs k progs_out"
  have r1: "transfer_prognostics_to_work_arrays ?aifm progs k q0 qqcw0 = Inr (?q, ?qqcw)"
    using idx pop(1) len(1,2) by (rule transfer_prognostics_to_work_arrays_result)
  have r2: "convert_work_arrays_to_vmr vmr_from_mmr ?aifm gas_species_mw aero_species_mw
              ?q ?qqcw vmr0 vmrcw0 = Inr (?vmr, ?vmrcw)"
    unfolding convert_work_arrays_to_vmr_def
    using len(3,4) by (intro convert_work_arrays_result) simp_all
  have r3: "convert_work_arrays_to_mmr mmr_from_vmr ?aifm gas_species_mw aero_species_mw
              ?vmr ?vmrcw q1 qqcw1 = Inr (?q', ?qqcw')"
    unfolding convert_work_arrays_to_mmr_def
    using len(5,6) by (intro convert_work_arrays_result) simp_all
  have inv_at: "?tm i (?tv i x) = x" if "i < gas_pcnst" for i x
    using inv that unfolding inverse_conversions_def by blast
  have q': "?q' = ?q" "?qqcw' = ?qqcw"
    by (rule nth_equalityI, simp, simp add: inv_at)+
  have vals: "\<forall>i\<in>set [0..<gas_pcnst]. i < gas_pcnst
                \<and> ?q ! i = level_value progs (cnst_slot ?aifm i) k
                \<and> ?qqcw ! i = level_value progs (cnst_slot_cw ?aifm i) k"
    by simp
  have "cnst_loop (work_arrays_to_prognostics_at ?aifm ?q ?qqcw k) (map int [0..<gas_pcnst])
          progs_out = Inr ?progs'"
    using idx pop _ _ vals by (rule work_arrays_to_prognostics_loop) simp_all
  then have r4: "transfer_work_arrays_to_prognostics ?aifm ?q' ?qqcw' progs_out k = Inr ?progs'"
    unfolding transfer_work_arrays_to_prognostics_def q' .
  have slot: "restored_at k progs ?progs' (cnst_slot ?aifm i)
            \<and> restored_at k progs ?progs' (cnst_slot_cw ?aifm i)" if "i < gas_pcnst" for i
  proof -
    from that have "cnst_slot ?aifm i \<in> ?S" "cnst_slot_cw ?aifm i \<in> ?S" by auto
    with pop cnst_slot_in_extent [OF idx that] show ?thesis
      by (simp add: restored_at_overlay)
  qed
  have r5: "\<forall>g<num_aero_gases. restored_at k progs ?progs' (Q_gas (int g))"
  proof (intro allI impI)
    fix g assume g: "g < num_aero_gases"
    from cnst_slot_gas(2) [OF g, of ?aifm] slot [OF cnst_slot_gas(1) [OF g]]
    show "restored_at k progs ?progs' (Q_gas (int g))" by simp
  qed
  have r6: "\<forall>i<gas_pcnst. aero_for_cnst ! i \<noteq> NoAero \<longrightarrow>
          restored_at k progs ?progs'
            (Q_aero_i (ModeIndex_int (mode_for_cnst ! i))
               (?aifm (mode_for_cnst ! i) (aero_for_cnst ! i)))
        \<and> restored_at k progs ?progs'
            (Q_aero_c (ModeIndex_int (mode_for_cnst ! i))
               (?aifm (mode_for_cnst ! i) (aero_for_cnst ! i)))"
  proof (intro allI impI)
    fix i assume i: "i < gas_pcnst" "aero_for_cnst ! i \<noteq> NoAero"
    from slot [OF i(1)] cnst_slot_aerosol [OF i, of ?aifm]
    show "restored_at k progs ?progs'
            (Q_aero_i (ModeIndex_int (mode_for_cnst ! i))
               (?aifm (mode_for_cnst ! i) (aero_for_cnst ! i)))
        \<and> restored_at k progs ?progs'
            (Q_aero_c (ModeIndex_int (mode_for_cnst ! i))
               (?aifm (mode_for_cnst ! i) (aero_for_cnst ! i)))" by simp
  qed
  have r7: "\<forall>m<num_aero_modes. restored_at k progs ?progs' (N_mode_i (int m))
                           \<and> restored_at k progs ?progs' (N_mode_c (int m))"
  proof (intro allI impI)
    fix m assume "m < num_aero_modes"
    from cnst_slot_number [OF this, of ?aifm] obtain i where "i < gas_pcnst"
      "cnst_slot ?aifm i = N_mode_i (int m)" "cnst_slot_cw ?aifm i = N_mode_c (int m)"
      by blast
    with slot [of i] show "restored_at k progs ?progs' (N_mode_i (int m))
                           \<and> restored_at k progs ?progs' (N_mode_c (int m))" by simp
  qed
  have r8: "progs_out = progs \<longrightarrow> ?progs' = progs" by (simp add: overlay_self)
  have r9: "\<forall>i<gas_pcnst. cnst_is_number i \<longrightarrow>
          ?vmr ! i = ?q ! i \<and> ?vmrcw ! i = ?qqcw ! i \<and> ?q' ! i = ?vmr ! i
            \<and> ?qqcw' ! i = ?vmrcw ! i"
    by (simp add: cnst_is_number_def cnst_convert_def)
  from r1 r2 r3 r4 r5 r6 r7 r8 r9 show ?thesis by blast
qed


text \<open>The round trip on the example, and some entries of its work arrays.\<close>

lemma example_indices_in_extent: "aerosol_indices_in_extent example_aerosol_index_for_mode"
  by code_simp

lemma GasId_int_nonneg: "0 \<le> GasId_int g"
  by (cases g) simp_all

lemma index_in_lower: "- 1 \<le> index_in xs aero"
  by (induction xs) (simp_all add: Let_def)

lemma example_conversions_inverse:
  "inverse_conversions example_vmr_from_mmr example_mmr_from_vmr
     example_aerosol_index_for_mode example_gas_species_mw example_aero_species_mw"
proof -
  have inv: "example_mmr_from_vmr (example_vmr_from_mmr x mw) mw = x" if "mw \<noteq> 0" for x mw
    using that by (simp add: example_mmr_from_vmr_def example_vmr_from_mmr_def)
  have g: "example_gas_species_mw (GasId_int g) \<noteq> 0" for g
    using GasId_int_nonneg [of g] by (simp add: example_gas_species_mw_def)
  have a: "example_aero_species_mw (example_aerosol_index_for_mode m aero) \<noteq> 0" for m aero
  proof -
    have "- 1 \<le> example_aerosol_index_for_mode m aero"
      unfolding example_aerosol_index_for_mode_def by (rule index_in_lower)
    then have "0 < 12 + real_of_int (example_aerosol_index_for_mode m aero)" by linarith
    then show ?thesis by (simp add: example_aero_species_mw_def)
  qed
  show ?thesis
    by (simp add: inverse_conversions_def cnst_convert_def inv g a)
qed

lemma example_progs_populated: "fully_populated example_progs"
  by (simp add: fully_populated_def)

lemma example_work_arrays:
  "\<exists>q qqcw. transfer_prognostics_to_work_arrays example_aerosol_index_for_mode example_progs 2
              (replicate gas_pcnst 0) (replicate gas_pcnst 0) = Inr (q, qqcw)
     \<and> q ! 0 = 1 / 7 \<and> qqcw ! 0 = 1 / 7 \<and> q ! 6 = 1 / 6 \<and> qqcw ! 6 = 1 / 7
     \<and> q ! 13 = 1002 \<and> qqcw ! 13 = 2002"
proof -
  have s: "cnst_slot example_aerosol_index_for_mode 0 = Q_gas 0"
      "cnst_slot_cw example_aerosol_index_for_mode 0 = Q_gas 0"
      "cnst_slot example_aerosol_index_for_mode 6 = Q_aero_i 0 1"
      "cnst_slot_cw example_aerosol_index_for_mode 6 = Q_aero_c 0 1"
      "cnst_slot example_aerosol_index_for_mode 13 = N_mode_i 0"
      "cnst_slot_cw example_aerosol_index_for_mode 13 = N_mode_c 0"
    by (simp_all add: cnst_slot_def cnst_slot_cw_def gas_for_cnst_def aero_for_cnst_def
          mode_for_cnst_def example_aerosol_index_for_mode_def)
  have n: "(0::nat) < gas_pcnst" "(6::nat) < gas_pcnst" "(13::nat) < gas_pcnst"
    by (simp_all add: gas_pcnst_def)
  show ?thesis
    using n
    by (simp add: transfer_prognostics_to_work_arrays_result [OF example_indices_in_extent
          example_progs_populated] s level_value_def del: upt_Suc)
qed

theorem work_arrays_round_trip_witness:
  "\<exists>q qqcw vmr vmrcw q' qqcw'.
      transfer_prognostics_to_work_arrays example_aerosol_index_for_mode example_progs 2
          (replicate gas_pcnst 0) (replicate gas_pcnst 0) = Inr (q, qqcw)
    \<and> convert_work_arrays_to_vmr example_vmr_from_mmr example_aerosol_index_for_mode
          example_gas_species_mw example_aero_species_mw q qqcw
          (replicate gas_pcnst 0) (replicate gas_pcnst 0) = Inr (vmr, vmrcw)
    \<and> convert_work_arrays_to_mmr example_mmr_from_vmr example_aerosol_index_for_mode
          example_gas_species_mw example_aero_species_mw vmr vmrcw
          (replicate gas_pcnst 0) (replicate gas_pcnst 0) = Inr (q', qqcw')
    \<and> transfer_work_arrays_to_prognostics example_aerosol_index_for_mode q' qqcw'
          example_progs 2 = Inr example_progs"
proof -
  have l: "length (replicate gas_pcnst (0::real)) = gas_pcnst" by simp
  from work_arrays_round_trip [where k = 2 and progs_out = example_progs,
      OF example_indices_in_extent example_conversions_inverse example_progs_populated
        example_progs_populated l l l l l l]
  obtain q qqcw vmr vmrcw q' qqcw' progs' where
    "transfer_prognostics_to_work_arrays example_aerosol_index_for_mode example_progs 2
          (replicate gas_pcnst 0) (replicate gas_pcnst 0) = Inr (q, qqcw)"
    "convert_work_arrays_to_vmr example_vmr_from_mmr example_aerosol_index_for_mode
          example_gas_species_mw example_aero_species_mw q qqcw
          (replicate gas_pcnst 0) (replicate gas_pcnst 0) = Inr (vmr, vmrcw)"
    "convert_work_arrays_to_mmr example_mmr_from_vmr example_aerosol_index_for_mode
          example_gas_species_mw example_aero_species_mw vmr vmrcw
          (replicate gas_pcnst 0) (replicate gas_pcnst 0) = Inr (q', qqcw')"
    "transfer_work_arrays_to_prognostics example_aerosol_index_for_mode q' qqcw'
          example_progs 2 = Inr progs'"
    "example_progs = example_progs \<longrightarrow> progs' = example_progs"
    by (elim exE conjE)
  then show ?thesis by auto
qed

end
